theory Spec2Isabelle
  imports Complex_Main
begin

section \<open>World JS core: the world, its seeds and its main loop\<close>

text \<open>
  A shallow embedding of \<^verbatim>\<open>src/js/world.core.js\<close>: the constructor \<^verbatim>\<open>WorldJS\<close> and
  the methods \<^verbatim>\<open>add\<close>, \<^verbatim>\<open>remove\<close>, \<^verbatim>\<open>addRandomPeople\<close>, \<^verbatim>\<open>run\<close>, \<^verbatim>\<open>start\<close> and
  \<^verbatim>\<open>stop\<close>.

  Conventions of the embedding.
  \<^item> JavaScript numbers are modelled as integers (\<^typ>\<open>int\<close>). The source computes in
    IEEE doubles, which are exact on integers of magnitude below \<open>2 ^ 53\<close>
    (\<open>safe_integer\<close>); the embedding is the source on that domain, and a theorem about
    the result of an addition or a product says where its operands and result lie in it.
    The two arithmetic steps of the source that can leave the integers, a remainder by
    zero and the increment of a missing array element, are explicit: the function returns
    \<open>Inl NotANumber\<close> where the source would store \<^verbatim>\<open>NaN\<close> and carry on, so a theorem
    about a call that returns \<open>Inr\<close> says nothing of those calls. The frame-rate estimate
    (\<^verbatim>\<open>fps\<close>, \<^verbatim>\<open>lastTickTime\<close>) is a floating-point quotient of host timestamps that
    nothing else reads; it is left out.
  \<^item> Seeds are JavaScript objects shared by reference between the tile buckets and the
    partner link of another seed. The world carries an object store \<open>objects\<close> from
    references to seed records, and \<open>nextRef\<close>, the reference the next \<^verbatim>\<open>new Seed\<close>
    allocates.
  \<^item> A run-time \<^verbatim>\<open>TypeError\<close> (a property access on \<^verbatim>\<open>undefined\<close> or, in strict mode,
    an assignment to a property of \<^verbatim>\<open>false\<close>) is the value \<open>Inl TypeError\<close>.
  \<^item> The collaborators that live in other files of the repository (seed classes,
    statistics, rules, knowledge, canvas) are parameters, gathered in the record \<open>env\<close>;
    their private state is the opaque component \<open>collab\<close> of the world. The tile module is
    modelled from the specification (see below).
  \<^item> \<^verbatim>\<open>Math.random()\<close> is a stream of reals: \<open>draws w n\<close> is the value of the \<open>n\<close>-th call
    and \<open>drawn w\<close> counts the calls made so far.
\<close>

subsection \<open>Data\<close>

type_synonym ref = nat

datatype fault = TypeError | NotANumber

datatype kind = Male | Female

text \<open>\<^verbatim>\<open>world.stopCallback\<close>: the no-op \<^verbatim>\<open>function() {}\<close>, or a function handed to \<^verbatim>\<open>stop\<close>.\<close>

datatype callback = Noop | Fn nat

text \<open>The \<^verbatim>\<open>data\<close> argument of \<^verbatim>\<open>add\<close>; \<open>None\<close> is an absent property.\<close>

record data =
  data_age :: "int option"
  data_tickCount :: "int option"
  data_x :: "int option"
  data_y :: "int option"

text \<open>
  The properties of a seed that the core reads or writes. A position coordinate is \<open>None\<close>
  while it holds \<^verbatim>\<open>false\<close> (not yet chosen); \<open>relationSeed\<close> is \<open>None\<close> when it holds
  \<^verbatim>\<open>false\<close>. \<open>seed_class\<close> is the class the object was constructed from
  (\<^verbatim>\<open>seed instanceof world.Male\<close>).
\<close>

record seed =
  seed_class :: kind
  seed_id :: int
  age :: int
  tickCount :: int
  stepCount :: int
  seed_tickMod :: int
  actionInterval :: int
  IQ :: int
  seed_x :: "int option"
  seed_y :: "int option"
  appearance_width :: int
  appearance_height :: int
  tileIndex :: nat
  tickIndex :: nat
  married :: bool
  relationSeed :: "ref option"
  maxChildAge :: int

record 'c world =
  running :: bool
  stopCallback :: callback
  width :: int
  height :: int
  padding :: int
  displayMode :: string
  nextSeedId :: int
  maxSafeSeedsForDisplay :: int
  tickPerYear :: int
  speed :: int
  tickMod :: int
  distributedTicks :: "int list"
  Tile_list :: "ref option list list"
  Tile_maxDisplayedSeeds :: int
  objects :: "ref \<Rightarrow> seed"
  nextRef :: ref
  collab :: 'c
  draws :: "nat \<Rightarrow> real"
  drawn :: nat

text \<open>The record handed to \<^verbatim>\<open>Statistic.yearPassed\<close>, built from the locals of \<^verbatim>\<open>run\<close>.\<close>

record aggregates =
  sPopulation :: int
  sIQ :: int
  sMen :: int
  sWomen :: int
  sBoys :: int
  sGirls :: int
  sFamilies :: int

text \<open>
  The collaborators. \<open>Seed_new K d\<close> is the body of the constructor of class \<open>K\<close> applied to
  \<open>d\<close>; \<open>Seed_tick r s\<close> is \<^verbatim>\<open>seed.tick(s)\<close> for the seed at reference \<open>r\<close> and may change
  the world it belongs to; \<open>Callback_call k\<close> is the body of the stop callback \<open>Fn k\<close>. The
  other hooks act on the collaborators' own state.
\<close>

record 'c env =
  Seed_new :: "kind \<Rightarrow> data \<Rightarrow> seed"
  Seed_tick :: "ref \<Rightarrow> int \<Rightarrow> 'c world \<Rightarrow> 'c world"
  Seed_draw :: "seed \<Rightarrow> bool \<Rightarrow> 'c \<Rightarrow> 'c"
  Tile_getIndex :: "seed \<Rightarrow> nat"
  Statistic_seedAdded :: "seed \<Rightarrow> 'c \<Rightarrow> 'c"
  Statistic_seedRemoved :: "seed \<Rightarrow> 'c \<Rightarrow> 'c"
  Statistic_yearPassed :: "aggregates \<Rightarrow> 'c \<Rightarrow> 'c"
  Statistic_population :: "'c \<Rightarrow> int"
  Rules_baseIQ :: "'c \<Rightarrow> int"
  Rules_change :: "'c \<Rightarrow> 'c"
  Knowledge_gain :: "'c \<Rightarrow> 'c"
  context_clearRect :: "int \<Rightarrow> int \<Rightarrow> 'c \<Rightarrow> 'c"
  Callback_call :: "nat \<Rightarrow> 'c world \<Rightarrow> 'c world"

subsection \<open>Arithmetic of the host language\<close>

text \<open>The remainder operator \<^verbatim>\<open>%\<close>: the sign follows the dividend; by zero it is \<^verbatim>\<open>NaN\<close>.\<close>

definition js_rem :: "int \<Rightarrow> int \<Rightarrow> int option" where
  "js_rem a b = (if b = 0 then None else Some (sgn a * (\<bar>a\<bar> mod \<bar>b\<bar>)))"

text \<open>An integer that a double holds exactly, together with its neighbours.\<close>

definition safe_integer :: "int \<Rightarrow> bool" where
  "safe_integer n \<longleftrightarrow> \<bar>n\<bar> < 2 ^ 53"

text \<open>
  \<^verbatim>\<open>Math.floor(Math.random() * (max - min + 1) + min)\<close>, the local function \<^verbatim>\<open>random\<close>
  of \<^verbatim>\<open>add\<close> and \<^verbatim>\<open>addRandomPeople\<close>, for the drawn value \<open>r\<close>.
\<close>

definition random :: "real \<Rightarrow> int \<Rightarrow> int \<Rightarrow> int" where
  "random r mn mx = \<lfloor>r * of_int (mx - mn + 1) + of_int mn\<rfloor>"

definition Math_random :: "'c world \<Rightarrow> real \<times> 'c world" where
  "Math_random w = (draws w (drawn w), w\<lparr>drawn := Suc (drawn w)\<rparr>)"

subsection \<open>The tile index\<close>

text \<open>
  Modelled from the spec: the tile module (\<^verbatim>\<open>world.Tile\<close>, whose \<^verbatim>\<open>set\<close> and \<^verbatim>\<open>rem\<close>
  are in a file that is not part of the sources at hand). The specification says of
  \<^verbatim>\<open>place(entity)\<close> that it "inserts the entity's reference into
  \<^verbatim>\<open>tile[entity.tileIndex]\<close>, reusing a vacated slot if one exists in that tile's
  sequence, else appending", without reordering the other occupants, and of
  \<^verbatim>\<open>remove(entity)\<close> that it "vacates the entity's current slot (sets to empty rather than
  shifting the sequence)". The first vacated slot is the one reused. A tile index beyond
  the list is a \<^verbatim>\<open>TypeError\<close>, as indexing \<^verbatim>\<open>undefined\<close> is. \<^verbatim>\<open>getIndex\<close> is a
  parameter (\<open>Tile_getIndex\<close>).
\<close>

fun place :: "ref \<Rightarrow> ref option list \<Rightarrow> ref option list" where
  "place r [] = [Some r]"
| "place r (None # slots) = Some r # slots"
| "place r (Some q # slots) = Some q # place r slots"

definition vacate :: "ref \<Rightarrow> ref option list \<Rightarrow> ref option list" where
  "vacate r slots = map (\<lambda>s. if s = Some r then None else s) slots"

definition Tile_set :: "ref \<Rightarrow> 'c world \<Rightarrow> fault + 'c world" where
  "Tile_set r w =
     (let t = tileIndex (objects w r) in
      if t < length (Tile_list w)
      then Inr (w\<lparr>Tile_list := (Tile_list w)[t := place r (Tile_list w ! t)]\<rparr>)
      else Inl TypeError)"

definition Tile_rem :: "ref \<Rightarrow> 'c world \<Rightarrow> fault + 'c world" where
  "Tile_rem r w =
     (let t = tileIndex (objects w r) in
      if t < length (Tile_list w)
      then Inr (w\<lparr>Tile_list := (Tile_list w)[t := vacate r (Tile_list w ! t)]\<rparr>)
      else Inl TypeError)"

subsection \<open>The constructor\<close>

text \<open>
  \<^verbatim>\<open>new WorldJS()\<close>. The initial state of the collaborators, the tile list and the
  display cap that the tile module starts with, and the stream of random draws are
  arguments. No seed object exists yet: every reference of the store holds the
  placeholder \<open>no_seed\<close> until \<^verbatim>\<open>new Seed\<close> allocates it.
\<close>

definition no_seed :: seed where
  "no_seed =
     \<lparr> seed_class = Female, seed_id = 0, age = 0, tickCount = 0, stepCount = 0,
       seed_tickMod = 0, actionInterval = 0, IQ = 0, seed_x = None, seed_y = None,
       appearance_width = 0, appearance_height = 0, tileIndex = 0, tickIndex = 0,
       married = False, relationSeed = None, maxChildAge = 0 \<rparr>"

definition WorldJS ::
  "'c \<Rightarrow> ref option list list \<Rightarrow> int \<Rightarrow> (nat \<Rightarrow> real) \<Rightarrow> 'c world" where
  "WorldJS c tiles cap rnd =
     \<lparr> running = False,
       stopCallback = Noop,
       width = 640,
       height = 360,
       padding = 10,
       displayMode = ''full'',
       nextSeedId = 1,
       maxSafeSeedsForDisplay = 30000,
       tickPerYear = 60,
       speed = 1,
       tickMod = 0,
       distributedTicks = replicate (nat (60 - 1)) 0,
       Tile_list = tiles,
       Tile_maxDisplayedSeeds = cap,
       objects = (\<lambda>_. no_seed),
       nextRef = 0,
       collab = c,
       draws = rnd,
       drawn = 0 \<rparr>"

subsection \<open>Admission: \<^verbatim>\<open>WorldJS.prototype.add\<close>\<close>

text \<open>
  Lines 170 to 185: \<^verbatim>\<open>new Seed(data)\<close>, then the identity, the age, the tick count
  derived from the age, the stamp and the base IQ. \<^verbatim>\<open>data.age || 0\<close> is \<open>0\<close> for an
  absent age. The result is the seed and the world with its identity counter advanced.
\<close>

definition admit_fields :: "'c env \<Rightarrow> kind \<Rightarrow> data \<Rightarrow> 'c world \<Rightarrow> seed \<times> 'c world" where
  "admit_fields env Seed dat world0 =
     (let seed = (Seed_new env Seed dat)\<lparr>seed_class := Seed\<rparr>;
          seed = seed\<lparr>seed_id := nextSeedId world0\<rparr>;
          world = world0\<lparr>nextSeedId := nextSeedId world0 + 1\<rparr>;
          seed = seed\<lparr>age := (case data_age dat of None \<Rightarrow> 0 | Some a \<Rightarrow> a)\<rparr>;
          seed = (if age seed > 0 then seed\<lparr>tickCount := age seed * tickPerYear world\<rparr> else seed);
          seed = seed\<lparr>seed_tickMod := tickMod world\<rparr>;
          seed = seed\<lparr>IQ := IQ seed + Rules_baseIQ env (collab world)\<rparr>
      in (seed, world))"

text \<open>Lines 187 to 196: a coordinate that is still \<^verbatim>\<open>false\<close> is drawn at random.\<close>

definition admit_x :: "seed \<Rightarrow> 'c world \<Rightarrow> seed \<times> 'c world" where
  "admit_x seed world =
     (case seed_x seed of
        None \<Rightarrow>
          (let (u, world) = Math_random world
           in (seed\<lparr>seed_x :=
                 Some (random u 0 (width world - 1 - max (appearance_width seed) (padding world)))\<rparr>,
               world))
      | Some _ \<Rightarrow> (seed, world))"

definition admit_y :: "seed \<Rightarrow> 'c world \<Rightarrow> seed \<times> 'c world" where
  "admit_y seed world =
     (case seed_y seed of
        None \<Rightarrow>
          (let (u, world) = Math_random world
           in (seed\<lparr>seed_y :=
                 Some (random u 0 (height world - 1 - appearance_height seed - padding world))\<rparr>,
               world))
      | Some _ \<Rightarrow> (seed, world))"

text \<open>
  Lines 205 to 213: the scan for the frame with the fewest seeds. The pair is
  \<^verbatim>\<open>(minIndex, minValue)\<close>; the index list is \<open>[0..<len]\<close>.
\<close>

fun scan_ticks :: "int list \<Rightarrow> nat list \<Rightarrow> nat \<times> int \<Rightarrow> nat \<times> int" where
  "scan_ticks dt [] (minIndex, minValue) = (minIndex, minValue)"
| "scan_ticks dt (i # is) (minIndex, minValue) =
     (if dt ! i < minValue then scan_ticks dt is (i, dt ! i)
      else scan_ticks dt is (minIndex, minValue))"

definition least_loaded :: "int list \<Rightarrow> nat" where
  "least_loaded dt = fst (scan_ticks dt [0..<length dt] (0, dt ! 0))"

text \<open>Lines 170 to 199: the seed as it is when its tile index has been calculated.\<close>

definition admit_seed :: "'c env \<Rightarrow> kind \<Rightarrow> data \<Rightarrow> 'c world \<Rightarrow> seed \<times> 'c world" where
  "admit_seed env Seed dat world =
     (let (seed, world) = admit_fields env Seed dat world;
          (seed, world) = admit_x seed world;
          (seed, world) = admit_y seed world;
          seed = seed\<lparr>tileIndex := Tile_getIndex env seed\<rparr>
      in (seed, world))"

text \<open>
  The whole of \<^verbatim>\<open>add(Seed, data)\<close>. The new object is allocated at \<open>nextRef\<close>. With no
  counter at all, \<^verbatim>\<open>distributedTicks[0]++\<close> stores \<^verbatim>\<open>NaN\<close>; with a zero
  \<^verbatim>\<open>actionInterval\<close> the remainder is \<^verbatim>\<open>NaN\<close>.
\<close>

definition add :: "'c env \<Rightarrow> kind \<Rightarrow> data \<Rightarrow> 'c world \<Rightarrow> fault + 'c world" where
  "add env Seed dat world0 =
     (let r = nextRef world0;
          world = world0\<lparr>nextRef := Suc r\<rparr>;
          (seed, world) = admit_seed env Seed dat world;
          world = world\<lparr>objects := (objects world)(r := seed)\<rparr>
      in case Tile_set r world of
           Inl e \<Rightarrow> Inl e
         | Inr world \<Rightarrow>
             (let dt = distributedTicks world in
              if dt = [] then Inl NotANumber
              else
                (let minIndex = least_loaded dt;
                     world = world\<lparr>distributedTicks := dt[minIndex := dt ! minIndex + 1]\<rparr>;
                     seed = seed\<lparr>tickIndex := minIndex\<rparr>
                 in case js_rem (tickMod world + tickCount seed + int minIndex)
                           (actionInterval seed) of
                      None \<Rightarrow> Inl NotANumber
                    | Some m \<Rightarrow>
                        (let seed = seed\<lparr>tickCount := tickCount seed + m\<rparr>;
                             seed = seed\<lparr>stepCount := tickCount seed\<rparr>;
                             world = world\<lparr>objects := (objects world)(r := seed)\<rparr>
                         in Inr (world\<lparr>collab :=
                                   Statistic_seedAdded env seed (collab world)\<rparr>)))))"

subsection \<open>Eviction: \<^verbatim>\<open>WorldJS.prototype.remove\<close>\<close>

text \<open>
  Lines 239 to 246, statement by statement on the object store. In strict mode the
  assignment \<^verbatim>\<open>seed.relationSeed.married = false\<close> throws when \<^verbatim>\<open>seed.relationSeed\<close>
  is \<^verbatim>\<open>false\<close>.
\<close>

definition unmarry :: "ref \<Rightarrow> 'c world \<Rightarrow> fault + 'c world" where
  "unmarry r world =
     (if married (objects world r) then
        (let world = world\<lparr>objects := (objects world)(r := (objects world r)\<lparr>married := False\<rparr>)\<rparr>
         in case relationSeed (objects world r) of
              None \<Rightarrow> Inl TypeError
            | Some p \<Rightarrow>
                (let world = world\<lparr>objects :=
                               (objects world)(p := (objects world p)\<lparr>married := False\<rparr>)\<rparr>
                 in case relationSeed (objects world r) of
                      None \<Rightarrow> Inl TypeError
                    | Some q \<Rightarrow>
                        (let world = world\<lparr>objects :=
                               (objects world)(q := (objects world q)\<lparr>relationSeed := None\<rparr>)\<rparr>
                         in Inr (world\<lparr>objects :=
                               (objects world)(r := (objects world r)\<lparr>relationSeed := None\<rparr>)\<rparr>))))
      else Inr world)"

text \<open>
  \<^verbatim>\<open>remove(seed)\<close> for the seed at reference \<open>r\<close>. A \<^verbatim>\<open>tickIndex\<close> beyond the counters
  makes \<^verbatim>\<open>distributedTicks[seed.tickIndex]--\<close> store \<^verbatim>\<open>NaN\<close>.
\<close>

definition remove :: "'c env \<Rightarrow> ref \<Rightarrow> 'c world \<Rightarrow> fault + 'c world" where
  "remove env r world0 =
     (let world = world0\<lparr>collab := Statistic_seedRemoved env (objects world0 r) (collab world0)\<rparr>
      in case unmarry r world of
           Inl e \<Rightarrow> Inl e
         | Inr world \<Rightarrow>
             (case Tile_rem r world of
                Inl e \<Rightarrow> Inl e
              | Inr world \<Rightarrow>
                  (let dt = distributedTicks world; k = tickIndex (objects world r)
                   in if k < length dt
                      then Inr (world\<lparr>distributedTicks := dt[k := dt ! k - 1]\<rparr>)
                      else Inl NotANumber)))"

subsection \<open>Random population: \<^verbatim>\<open>WorldJS.prototype.addRandomPeople\<close>\<close>

text \<open>Lines 282 to 300: a spawn from a border forces one coordinate (\<^verbatim>\<open>padding = 10\<close>).\<close>

definition border_data :: "int \<Rightarrow> data \<Rightarrow> 'c world \<Rightarrow> data \<times> 'c world" where
  "border_data fromBorder dat world0 =
     (if fromBorder > 0 then
        (let (border, world) =
               (if fromBorder = 5
                then (let (u, world) = Math_random world0 in (random u 1 4, world))
                else (fromBorder, world0));
             padding = 10
         in if border = 1 then
              (let (u, world) = Math_random world
               in (dat\<lparr>data_y := Some (random u 0 padding)\<rparr>, world))
            else if border = 2 then
              (let (u, world) = Math_random world
               in (dat\<lparr>data_y := Some (random u (height world - padding - 1) (height world - 1))\<rparr>,
                   world))
            else if border = 3 then
              (let (u, world) = Math_random world
               in (dat\<lparr>data_x := Some (random u 0 padding)\<rparr>, world))
            else if border = 4 then
              (let (u, world) = Math_random world
               in (dat\<lparr>data_x := Some (random u (width world - padding - 1) (width world - 1))\<rparr>,
                   world))
            else (dat, world))
      else (dat, world0))"

text \<open>
  The loop of lines 274 to 307 over the indices \<open>i\<close>; \<open>tpy\<close> is the local
  \<^verbatim>\<open>tickPerYear\<close> read before the loop. \<^verbatim>\<open>i < count / 2\<close> is \<open>2 * i < count\<close>.
\<close>

fun add_people ::
  "'c env \<Rightarrow> int \<Rightarrow> int \<Rightarrow> int \<Rightarrow> int \<Rightarrow> int \<Rightarrow> nat list \<Rightarrow> 'c world \<Rightarrow> fault + 'c world" where
  "add_people env count minAge maxAge fromBorder tpy [] world = Inr world"
| "add_people env count minAge maxAge fromBorder tpy (i # is) world0 =
     (let (u, world) = Math_random world0;
          a = random u minAge maxAge;
          dat = \<lparr>data_age = Some a, data_tickCount = Some (a * tpy), data_x = None, data_y = None\<rparr>;
          (dat, world) = border_data fromBorder dat world
      in case add env (if 2 * int i < count then Male else Female) dat world of
           Inl e \<Rightarrow> Inl e
         | Inr world \<Rightarrow> add_people env count minAge maxAge fromBorder tpy is world)"

text \<open>An argument that is \<^verbatim>\<open>undefined\<close> is \<open>None\<close> and takes its default.\<close>

definition addRandomPeople ::
  "'c env \<Rightarrow> int \<Rightarrow> int option \<Rightarrow> int option \<Rightarrow> int option \<Rightarrow> 'c world \<Rightarrow> fault + 'c world" where
  "addRandomPeople env count minAge maxAge fromBorder world =
     add_people env count
       (case minAge of None \<Rightarrow> 15 | Some a \<Rightarrow> a)
       (case maxAge of None \<Rightarrow> 20 | Some a \<Rightarrow> a)
       (case fromBorder of None \<Rightarrow> 0 | Some b \<Rightarrow> b)
       (tickPerYear world) [0..<nat count] world"

subsection \<open>The main loop: \<^verbatim>\<open>WorldJS.prototype.run\<close>\<close>

text \<open>
  The state of one pass over the tiles: the world, the statistics recomputed in the pass
  (the locals \<^verbatim>\<open>sPopulation\<close> to \<^verbatim>\<open>sFamilies\<close>), the local \<^verbatim>\<open>displayedSeeds\<close> of the
  current tile, and \<open>ticked\<close>, the references whose \<^verbatim>\<open>seed.tick\<close> the pass has invoked,
  latest first.
\<close>

record 'c pass =
  pworld :: "'c world"
  stats :: aggregates
  displayedSeeds :: int
  ticked :: "ref list"

text \<open>
  \<^verbatim>\<open>seeds[j]\<close> for \<^verbatim>\<open>seeds = listTile[i]\<close>. Both arrays are changed in place, so the slot
  is read from the current world; beyond the end of the bucket it is \<^verbatim>\<open>undefined\<close>.
\<close>

definition slot_at :: "ref option list list \<Rightarrow> nat \<Rightarrow> nat \<Rightarrow> ref option" where
  "slot_at tiles i j =
     (if i < length tiles \<and> j < length (tiles ! i) then tiles ! i ! j else None)"

text \<open>Lines 368 to 390: a year has passed; the seed ages and is counted.\<close>

definition count_seed :: "seed \<Rightarrow> aggregates \<Rightarrow> aggregates" where
  "count_seed seed a =
     (let a = a\<lparr>sPopulation := sPopulation a + 1\<rparr>;
          a = a\<lparr>sIQ := sIQ a + IQ seed\<rparr>
      in if seed_class seed = Male then
           (if age seed \<le> maxChildAge seed then a\<lparr>sBoys := sBoys a + 1\<rparr>
            else (let a = a\<lparr>sMen := sMen a + 1\<rparr>
                  in if married seed then a\<lparr>sFamilies := sFamilies a + 1\<rparr> else a))
         else
           (if age seed \<le> maxChildAge seed then a\<lparr>sGirls := sGirls a + 1\<rparr>
            else a\<lparr>sWomen := sWomen a + 1\<rparr>))"

text \<open>Lines 392 to 408: the seed is drawn unless the tile has shown enough seeds.\<close>

definition draw_seed :: "'c env \<Rightarrow> int \<Rightarrow> ref \<Rightarrow> 'c pass \<Rightarrow> 'c pass" where
  "draw_seed env maxDisplayedSeeds r p =
     (if displayedSeeds p < maxDisplayedSeeds then
        (let world = pworld p;
             seed = objects world r;
             world =
               (if displayMode world = ''full''
                then world\<lparr>collab := Seed_draw env seed True (collab world)\<rparr>
                else if displayMode world = ''dot''
                then world\<lparr>collab := Seed_draw env seed False (collab world)\<rparr>
                else world)
         in p\<lparr>pworld := world, displayedSeeds := displayedSeeds p + 1\<rparr>)
      else p)"

text \<open>Lines 412 to 421: the seed moved to another tile.\<close>

definition retile :: "'c env \<Rightarrow> nat \<Rightarrow> ref \<Rightarrow> 'c world \<Rightarrow> fault + 'c world" where
  "retile env oldTileIndex r world =
     (let newTileIndex = Tile_getIndex env (objects world r)
      in if newTileIndex \<noteq> oldTileIndex then
           (case Tile_rem r world of
              Inl e \<Rightarrow> Inl e
            | Inr world \<Rightarrow>
                Tile_set r
                  (world\<lparr>objects :=
                     (objects world)(r := (objects world r)\<lparr>tileIndex := newTileIndex\<rparr>)\<rparr>))
         else Inr world)"

text \<open>
  Lines 366 to 408: the seed is stamped with the current \<^verbatim>\<open>tickMod\<close>, then aged and
  counted when a year has passed, then drawn when the frame is redrawn.
\<close>

definition stamp_seed :: "'c env \<Rightarrow> bool \<Rightarrow> bool \<Rightarrow> int \<Rightarrow> ref \<Rightarrow> 'c pass \<Rightarrow> 'c pass" where
  "stamp_seed env yearPassed reDraw maxDisplayedSeeds r p0 =
     (let world = pworld p0;
          world = world\<lparr>objects :=
                    (objects world)(r := (objects world r)\<lparr>seed_tickMod := tickMod world\<rparr>)\<rparr>;
          p = p0\<lparr>pworld := world\<rparr>;
          p = (if yearPassed then
                 (let world = world\<lparr>objects :=
                        (objects world)(r := (objects world r)\<lparr>age := age (objects world r) + 1\<rparr>)\<rparr>
                  in p\<lparr>pworld := world, stats := count_seed (objects world r) (stats p)\<rparr>)
               else p)
      in if reDraw then draw_seed env maxDisplayedSeeds r p else p)"

text \<open>
  The body of the inner loop (lines 351 to 422) at slot \<open>j\<close> of tile \<open>i\<close>. An empty slot
  and a seed whose stamp is the current \<^verbatim>\<open>tickMod\<close> are passed over. Otherwise the seed
  is stamped, its \<^verbatim>\<open>tick\<close> is invoked and recorded in \<open>ticked\<close>, and its tile is updated.
\<close>

definition visit ::
  "'c env \<Rightarrow> bool \<Rightarrow> bool \<Rightarrow> int \<Rightarrow> int \<Rightarrow> nat \<Rightarrow> nat \<Rightarrow> 'c pass \<Rightarrow> fault + 'c pass" where
  "visit env yearPassed reDraw maxDisplayedSeeds spd i j p0 =
     (case slot_at (Tile_list (pworld p0)) i j of
        None \<Rightarrow> Inr p0
      | Some r \<Rightarrow>
          (let oldTileIndex = tileIndex (objects (pworld p0) r)
           in if seed_tickMod (objects (pworld p0) r) = tickMod (pworld p0) then Inr p0
              else
                (let p = stamp_seed env yearPassed reDraw maxDisplayedSeeds r p0;
                     world = Seed_tick env r spd (pworld p);
                     p = p\<lparr>ticked := r # ticked p\<rparr>
                 in case retile env oldTileIndex r world of
                      Inl e \<Rightarrow> Inl e
                    | Inr world \<Rightarrow> Inr (p\<lparr>pworld := world\<rparr>))))"

text \<open>The inner loop over \<open>j\<close> in \<open>[0..<len2]\<close> and the outer loop over \<open>i\<close> in \<open>[0..<len]\<close>.\<close>

fun run_slots ::
  "'c env \<Rightarrow> bool \<Rightarrow> bool \<Rightarrow> int \<Rightarrow> int \<Rightarrow> nat \<Rightarrow> nat list \<Rightarrow> 'c pass \<Rightarrow> fault + 'c pass" where
  "run_slots env yearPassed reDraw cap spd i [] p = Inr p"
| "run_slots env yearPassed reDraw cap spd i (j # js) p =
     (case visit env yearPassed reDraw cap spd i j p of
        Inl e \<Rightarrow> Inl e
      | Inr p \<Rightarrow> run_slots env yearPassed reDraw cap spd i js p)"

text \<open>
  \<^verbatim>\<open>len2 = seeds.length\<close> is read once, when tile \<open>i\<close> is entered; a tile that is no
  longer in the list makes \<^verbatim>\<open>seeds.length\<close> a \<^verbatim>\<open>TypeError\<close>.
\<close>

fun run_tiles ::
  "'c env \<Rightarrow> bool \<Rightarrow> bool \<Rightarrow> int \<Rightarrow> int \<Rightarrow> nat list \<Rightarrow> 'c pass \<Rightarrow> fault + 'c pass" where
  "run_tiles env yearPassed reDraw cap spd [] p = Inr p"
| "run_tiles env yearPassed reDraw cap spd (i # is) p =
     (if i < length (Tile_list (pworld p)) then
        (case run_slots env yearPassed reDraw cap spd i
                [0..<length (Tile_list (pworld p) ! i)] (p\<lparr>displayedSeeds := 0\<rparr>) of
           Inl e \<Rightarrow> Inl e
         | Inr p \<Rightarrow> run_tiles env yearPassed reDraw cap spd is p)
      else Inl TypeError)"

text \<open>
  What one call of \<^verbatim>\<open>run\<close> leaves behind: the world; the seeds ticked, in order; whether
  a year passed (then \<^verbatim>\<open>Statistic.yearPassed\<close> received \<open>year_stats\<close> and the event
  \<^verbatim>\<open>yearPassed\<close> was posted with \<^verbatim>\<open>setTimeout\<close>); whether \<^verbatim>\<open>requestAnimationFrame\<close>
  was asked for another call of \<^verbatim>\<open>run\<close>; and the stop callback that was called, if one
  was.
\<close>

record 'c tick_result =
  world_after :: "'c world"
  ticked_seeds :: "ref list"
  year_passed :: bool
  year_stats :: aggregates
  frame_requested :: bool
  called :: "callback option"

definition call_callback :: "'c env \<Rightarrow> callback \<Rightarrow> 'c world \<Rightarrow> 'c world" where
  "call_callback env cb world = (case cb of Noop \<Rightarrow> world | Fn k \<Rightarrow> Callback_call env k world)"

text \<open>Lines 452 to 462: the next frame is requested, or the stop callback is triggered once.\<close>

definition loop_animation :: "'c env \<Rightarrow> 'c world \<Rightarrow> 'c world \<times> bool \<times> callback option" where
  "loop_animation env world =
     (if running world then (world, True, None)
      else
        (let cb = stopCallback world;
             world = call_callback env cb world
         in (world\<lparr>stopCallback := Noop\<rparr>, False, Some cb)))"

definition no_stats :: aggregates where
  "no_stats = \<lparr>sPopulation = 0, sIQ = 0, sMen = 0, sWomen = 0, sBoys = 0, sGirls = 0,
     sFamilies = 0\<rparr>"

text \<open>
  Lines 315 to 424: the tick counter is advanced, the canvas is cleared when the frame is
  redrawn, and the tiles are traversed. The result is the local \<^verbatim>\<open>yearPassed\<close> and the
  state of the pass.
\<close>

definition run_traverse :: "'c env \<Rightarrow> 'c world \<Rightarrow> fault + bool \<times> 'c pass" where
  "run_traverse env world0 =
     (case js_rem (tickMod world0 + 1) (tickPerYear world0) of
        None \<Rightarrow> Inl NotANumber
      | Some t \<Rightarrow>
          (let world = world0\<lparr>tickMod := t\<rparr>;
               yearPassed = (tickMod world = 0);
               reDraw = (Statistic_population env (collab world) \<le> maxSafeSeedsForDisplay world
                         \<or> yearPassed);
               world = (if reDraw
                        then world\<lparr>collab :=
                               context_clearRect env (width world) (height world) (collab world)\<rparr>
                        else world)
           in case run_tiles env yearPassed reDraw (Tile_maxDisplayedSeeds world) (speed world)
                     [0..<length (Tile_list world)]
                     \<lparr>pworld = world, stats = no_stats, displayedSeeds = 0, ticked = []\<rparr> of
                Inl e \<Rightarrow> Inl e
              | Inr p \<Rightarrow> Inr (yearPassed, p)))"

text \<open>
  Lines 426 to 464: the yearly hooks; the world stops itself when the year counted no
  seed, and \<^verbatim>\<open>run\<close> returns at once; otherwise the animation loop goes on or the stop
  callback is triggered.
\<close>

definition run_finish :: "'c env \<Rightarrow> bool \<Rightarrow> 'c pass \<Rightarrow> 'c tick_result" where
  "run_finish env yearPassed p =
     (let world = pworld p;
          world = (if yearPassed
                   then world\<lparr>collab := Knowledge_gain env (Rules_change env
                          (Statistic_yearPassed env (stats p) (collab world)))\<rparr>
                   else world)
      in if yearPassed \<and> sPopulation (stats p) = 0 then
           \<lparr>world_after = world\<lparr>running := False\<rparr>,
            ticked_seeds = rev (ticked p),
            year_passed = yearPassed, year_stats = stats p,
            frame_requested = False, called = None\<rparr>
         else
           (let (world, again, cb) = loop_animation env world
            in \<lparr>world_after = world, ticked_seeds = rev (ticked p),
                year_passed = yearPassed, year_stats = stats p,
                frame_requested = again, called = cb\<rparr>))"

definition run :: "'c env \<Rightarrow> 'c world \<Rightarrow> fault + 'c tick_result" where
  "run env world0 =
     (case run_traverse env world0 of
        Inl e \<Rightarrow> Inl e
      | Inr (yearPassed, p) \<Rightarrow> Inr (run_finish env yearPassed p))"

subsection \<open>\<^verbatim>\<open>start\<close>, \<^verbatim>\<open>stop\<close> and the frames that follow\<close>


text \<open>\<^verbatim>\<open>stop(callback)\<close>; the argument is \<open>None\<close> when it is not a function.\<close>

definition stop :: "callback option \<Rightarrow> 'c world \<Rightarrow> 'c world" where
  "stop cb world0 =
     (let world = world0\<lparr>running := False\<rparr>
      in case cb of None \<Rightarrow> world | Some f \<Rightarrow> world\<lparr>stopCallback := f\<rparr>)"

text \<open>
  Modelled from the spec: the platform pacing primitive (\<^verbatim>\<open>requestAnimationFrame\<close>),
  which "schedules a callback to run at the next display refresh". \<open>frames env n w\<close> calls
  \<^verbatim>\<open>run\<close> on \<open>w\<close> and then, as long as the call just made requested another frame, calls it
  again, at most \<open>n\<close> calls in all; the result lists what each call left behind.
\<close>

fun frames :: "'c env \<Rightarrow> nat \<Rightarrow> 'c world \<Rightarrow> fault + 'c tick_result list" where
  "frames env 0 world = Inr []"
| "frames env (Suc n) world =
     (case run env world of
        Inl e \<Rightarrow> Inl e
      | Inr res \<Rightarrow>
          (if frame_requested res then
             (case frames env n (world_after res) of
                Inl e \<Rightarrow> Inl e
              | Inr rs \<Rightarrow> Inr (res # rs))
           else Inr [res]))"

subsection \<open>Sequences of admissions and evictions\<close>

text \<open>
  A sequence of lifecycle operations, run from a world and the list of its live seeds
  (those admitted and not yet evicted). An admission makes the newly allocated object
  live. An eviction is applied to a live seed only; a sequence that evicts any other
  reference, or one of whose operations does not return, has no result (\<open>None\<close>).
\<close>

datatype lifecycle_op = Admit kind data | Evict ref

fun lifecycle ::
  "'c env \<Rightarrow> lifecycle_op list \<Rightarrow> 'c world \<times> ref list \<Rightarrow> ('c world \<times> ref list) option" where
  "lifecycle env [] (w, live) = Some (w, live)"
| "lifecycle env (Admit K dat # ops) (w, live) =
     (case add env K dat w of
        Inl e \<Rightarrow> None
      | Inr w' \<Rightarrow> lifecycle env ops (w', nextRef w # live))"
| "lifecycle env (Evict r # ops) (w, live) =
     (if r \<in> set live then
        (case remove env r w of
           Inl e \<Rightarrow> None
         | Inr w' \<Rightarrow> lifecycle env ops (w', removeAll r live))
      else None)"

subsection \<open>What the theorems ask of the collaborators and of a world\<close>

text \<open>
  \<^verbatim>\<open>seed.tick\<close>, invoked on a seed that carries the current stamp, leaves the world's
  tick counter alone and does not take the current stamp away from a seed that carries
  it. (It may stamp a seed: a child admitted during the pass is stamped by \<^verbatim>\<open>add\<close>.)
\<close>

definition tick_keeps_stamps :: "'c env \<Rightarrow> bool" where
  "tick_keeps_stamps env \<longleftrightarrow>
     (\<forall>r s w. seed_tickMod (objects w r) = tickMod w \<longrightarrow>
        tickMod (Seed_tick env r s w) = tickMod w \<and>
        (\<forall>q. seed_tickMod (objects w q) = tickMod w \<longrightarrow>
             seed_tickMod (objects (Seed_tick env r s w) q) = tickMod w))"


text \<open>\<^verbatim>\<open>Math.random()\<close> returns a value in \<open>[0, 1)\<close>.\<close>

definition unit_draws :: "(nat \<Rightarrow> real) \<Rightarrow> bool" where
  "unit_draws rnd \<longleftrightarrow> (\<forall>n. 0 \<le> rnd n \<and> rnd n < 1)"

text \<open>
  The \<^verbatim>\<open>data\<close> that \<^verbatim>\<open>addRandomPeople\<close> builds for a person of age \<open>a\<close> when no border
  is asked for (lines 277 to 280).
\<close>

definition person :: "int \<Rightarrow> int \<Rightarrow> data" where
  "person a tpy = \<lparr>data_age = Some a, data_tickCount = Some (a * tpy), data_x = None, data_y = None\<rparr>"

text \<open>
  The constructors of people leave both coordinates \<^verbatim>\<open>false\<close>, and the world, whose
  size is a safe integer, has room for the footprint of a person inside its padding.
\<close>

definition unforced_people :: "'c env \<Rightarrow> int \<Rightarrow> bool" where
  "unforced_people env tpy \<longleftrightarrow>
     (\<forall>K a. seed_x (Seed_new env K (person a tpy)) = None \<and>
            seed_y (Seed_new env K (person a tpy)) = None)"

definition room_for_people :: "'c env \<Rightarrow> 'c world \<Rightarrow> bool" where
  "room_for_people env w \<longleftrightarrow>
     0 \<le> padding w \<and> safe_integer (width w) \<and> safe_integer (height w) \<and>
     (\<forall>K a. 0 \<le> appearance_height (Seed_new env K (person a (tickPerYear w))) \<and>
            max (appearance_width (Seed_new env K (person a (tickPerYear w)))) (padding w)
              \<le> width w - 1 \<and>
            appearance_height (Seed_new env K (person a (tickPerYear w))) + padding w
              \<le> height w - 1)"

text \<open>The tick count of a seed before its frame offset is added (line 220).\<close>

definition baseTickCount :: "'c env \<Rightarrow> kind \<Rightarrow> data \<Rightarrow> 'c world \<Rightarrow> int" where
  "baseTickCount env Seed dat w = tickCount (fst (admit_fields env Seed dat w))"

text \<open>
  The live seeds are counted by the frame counters: the live list has no repetition, every
  live seed is an allocated object whose frame index is inside the counters, and the
  counters add up to the number of live seeds.
\<close>

definition counted :: "'c world \<Rightarrow> ref list \<Rightarrow> bool" where
  "counted w live \<longleftrightarrow>
     distinct live \<and>
     list_all (\<lambda>r. r < nextRef w \<and> tickIndex (objects w r) < length (distributedTicks w)) live \<and>
     sum_list (distributedTicks w) = int (length live)"

text \<open>
  The position of a seed is inside the world, its footprint and the padding taken off:
  \<open>x\<close> in \<open>[0, width - 1 - max(footprint width, padding)]\<close> and \<open>y\<close> in
  \<open>[0, height - 1 - footprint height - padding]\<close>, hence in \<open>[0, width)\<close> and \<open>[0, height)\<close>.
\<close>

definition in_bounds :: "'c world \<Rightarrow> seed \<Rightarrow> bool" where
  "in_bounds w s =
     (case (seed_x s, seed_y s) of
        (Some x, Some y) \<Rightarrow>
          0 \<le> x \<and> x \<le> width w - 1 - max (appearance_width s) (padding w) \<and> x < width w \<and>
          0 \<le> y \<and> y \<le> height w - 1 - appearance_height s - padding w \<and> y < height w
      | _ \<Rightarrow> False)"

text \<open>
  The invariant of a pass, for a set \<open>S\<close> of seeds: no seed was ticked twice, every seed
  ticked carries the current stamp, and every seed of \<open>S\<close> carries it and was not ticked.
\<close>

definition stamped_pass :: "ref set \<Rightarrow> 'c pass \<Rightarrow> bool" where
  "stamped_pass S p \<longleftrightarrow>
     distinct (ticked p) \<and>
     (\<forall>r\<in>set (ticked p). seed_tickMod (objects (pworld p) r) = tickMod (pworld p)) \<and>
     (\<forall>q\<in>S. seed_tickMod (objects (pworld p) q) = tickMod (pworld p) \<and> q \<notin> set (ticked p))"

text \<open>
  The identities handed out so far are positive and below the next one: the identity
  counter is positive and above the identity of every object allocated.
\<close>

definition identities_below :: "'c world \<Rightarrow> bool" where
  "identities_below w \<longleftrightarrow>
     0 < nextSeedId w \<and> list_all (\<lambda>r. seed_id (objects w r) < nextSeedId w) [0..<nextRef w]"

subsection \<open>A small world to run the definitions on\<close>

text \<open>
  A seed class with a footprint of 11 by 15 pixels and an action interval of 30, two
  tiles split at \<open>x = 320\<close>, a statistics store that counts the population, and a
  \<^verbatim>\<open>tick\<close> that walks the seed to \<open>x = 400\<close>, into the second tile.
\<close>

definition demo_seed :: "data \<Rightarrow> seed" where
  "demo_seed d =
     \<lparr> seed_class = Female, seed_id = 0, age = 0,
       tickCount = (case data_tickCount d of None \<Rightarrow> 0 | Some t \<Rightarrow> t), stepCount = 0,
       seed_tickMod = 0, actionInterval = 30, IQ = 100, seed_x = data_x d, seed_y = data_y d,
       appearance_width = 11, appearance_height = 15, tileIndex = 0, tickIndex = 0,
       married = False, relationSeed = None, maxChildAge = 15 \<rparr>"

definition demo_index :: "seed \<Rightarrow> nat" where
  "demo_index s = (case seed_x s of None \<Rightarrow> 0 | Some x \<Rightarrow> if x < 320 then 0 else 1)"

definition demo_env :: "int env" where
  "demo_env =
     \<lparr> Seed_new = (\<lambda>K. demo_seed),
       Seed_tick = (\<lambda>r s w. w\<lparr>objects := (objects w)(r := (objects w r)\<lparr>seed_x := Some 400\<rparr>)\<rparr>),
       Seed_draw = (\<lambda>s b c. c),
       Tile_getIndex = demo_index,
       Statistic_seedAdded = (\<lambda>s c. c + 1),
       Statistic_seedRemoved = (\<lambda>s c. c - 1),
       Statistic_yearPassed = (\<lambda>a c. sPopulation a),
       Statistic_population = (\<lambda>c. c),
       Rules_baseIQ = (\<lambda>c. 0),
       Rules_change = (\<lambda>c. c),
       Knowledge_gain = (\<lambda>c. c),
       context_clearRect = (\<lambda>w h c. c),
       Callback_call = (\<lambda>k w. w) \<rparr>"

definition demo_world :: "int world" where
  "demo_world = WorldJS 0 [[], []] 7 (\<lambda>n. 1 / 4)"

definition demo_data :: data where
  "demo_data = \<lparr>data_age = Some 15, data_tickCount = None, data_x = None, data_y = None\<rparr>"


text \<open>Two seeds marked as married to each other, as a seed behaviour would mark them.\<close>

definition marry :: "ref \<Rightarrow> ref \<Rightarrow> 'c world \<Rightarrow> 'c world" where
  "marry a b w =
     (let w = w\<lparr>objects := (objects w)(a := (objects w a)\<lparr>married := True, relationSeed := Some b\<rparr>)\<rparr>
      in w\<lparr>objects := (objects w)(b := (objects w b)\<lparr>married := True, relationSeed := Some a\<rparr>)\<rparr>)"

text \<open>The small world after a man and a woman were admitted, and the couple married.\<close>

definition demo_two :: "int world" where
  "demo_two =
     (case add demo_env Male demo_data demo_world of
        Inl e \<Rightarrow> demo_world
      | Inr w \<Rightarrow> (case add demo_env Female demo_data w of Inl e \<Rightarrow> w | Inr w \<Rightarrow> w))"

definition demo_couple :: "int world" where
  "demo_couple = marry 0 1 demo_two"

text \<open>Two admissions, the eviction of the first seed, and one more admission.\<close>

definition demo_ops :: "lifecycle_op list" where
  "demo_ops = [Admit Male demo_data, Admit Female demo_data, Evict 0, Admit Male demo_data]"

text \<open>The small world, started with no seed, after 59 frames.\<close>

definition demo_year_end :: "int world" where
  "demo_year_end =
     (case frames demo_env 59 (demo_world\<lparr>running := True\<rparr>) of
        Inl e \<Rightarrow> demo_world
      | Inr rs \<Rightarrow> world_after (last rs))"

text \<open>A constructed world whose random draws run through 0, 1/7, ..., 6/7.\<close>

definition demo_draws :: "nat \<Rightarrow> real" where
  "demo_draws n = real (n mod 7) / 7"

definition demo_arena :: "int world" where
  "demo_arena = WorldJS 0 [[], []] 7 demo_draws"

section \<open>Properties\<close>

subsection \<open>The scan for the least loaded frame\<close>

lemma scan_ticks_inv:
  "k \<le> n \<Longrightarrow> n \<le> length dt \<Longrightarrow> mi < length dt \<Longrightarrow> mi \<le> k
   \<Longrightarrow> \<forall>i<k. dt ! mi \<le> dt ! i \<Longrightarrow> \<forall>i<mi. dt ! mi < dt ! i
   \<Longrightarrow> scan_ticks dt [k..<n] (mi, dt ! mi) = (mi', mv')
   \<Longrightarrow> mi' < length dt \<and> mv' = dt ! mi' \<and> (\<forall>i<n. dt ! mi' \<le> dt ! i) \<and> (\<forall>i<mi'. dt ! mi' < dt ! i)"
proof (induction "n - k" arbitrary: k mi)
  case 0
  then show ?case by auto
next
  case (Suc d)
  then have kn: "k < n" by simp
  then have upt: "[k..<n] = k # [Suc k..<n]" by (simp add: upt_conv_Cons)
  have d: "d = n - Suc k" using Suc.hyps(2) by simp
  show ?case
  proof (cases "dt ! k < dt ! mi")
    case True
    then have step: "scan_ticks dt [Suc k..<n] (k, dt ! k) = (mi', mv')"
      using Suc.prems(7) upt by simp
    have a: "\<forall>i<Suc k. dt ! k \<le> dt ! i"
      using True Suc.prems(5) by (auto simp: less_Suc_eq)
    have b: "\<forall>i<k. dt ! k < dt ! i"
      using True Suc.prems(5) by fastforce
    show ?thesis
      using Suc.hyps(1)[OF d _ Suc.prems(2) _ _ a b step] kn Suc.prems(2) by simp
  next
    case False
    then have step: "scan_ticks dt [Suc k..<n] (mi, dt ! mi) = (mi', mv')"
      using Suc.prems(7) upt by simp
    have a: "\<forall>i<Suc k. dt ! mi \<le> dt ! i"
      using False Suc.prems(5) by (auto simp: less_Suc_eq)
    show ?thesis
      using Suc.hyps(1)[OF d _ Suc.prems(2) Suc.prems(3) _ a Suc.prems(6) step] kn Suc.prems(4) by simp
  qed
qed

lemma least_loaded_min:
  assumes "dt \<noteq> []"
  shows "least_loaded dt < length dt"
    and "\<forall>i<length dt. dt ! least_loaded dt \<le> dt ! i"
    and "\<forall>i<least_loaded dt. dt ! least_loaded dt < dt ! i"
proof -
  obtain mi mv where s: "scan_ticks dt [0..<length dt] (0, dt ! 0) = (mi, mv)"
    by (cases "scan_ticks dt [0..<length dt] (0, dt ! 0)")
  have l: "0 < length dt" using assms by simp
  have "mi < length dt \<and> mv = dt ! mi \<and> (\<forall>i<length dt. dt ! mi \<le> dt ! i) \<and> (\<forall>i<mi. dt ! mi < dt ! i)"
    by (rule scan_ticks_inv[where k = 0 and mi = 0 and n = "length dt"]) (use l s in simp_all)
  moreover have "least_loaded dt = mi" by (simp add: least_loaded_def s)
  ultimately show "least_loaded dt < length dt"
    and "\<forall>i<length dt. dt ! least_loaded dt \<le> dt ! i"
    and "\<forall>i<least_loaded dt. dt ! least_loaded dt < dt ! i" by simp_all
qed

subsection \<open>What an admission returns\<close>

lemma js_rem_mod: "0 \<le> a \<Longrightarrow> 0 < b \<Longrightarrow> js_rem a b = Some (a mod b)"
  by (cases "a = 0") (simp_all add: js_rem_def)

lemma admit_x_eq:
  "admit_x s w =
     (s\<lparr>seed_x := Some (case seed_x s of
           None \<Rightarrow> random (draws w (drawn w)) 0 (width w - 1 - max (appearance_width s) (padding w))
         | Some x \<Rightarrow> x)\<rparr>,
      w\<lparr>drawn := (case seed_x s of None \<Rightarrow> Suc (drawn w) | Some x \<Rightarrow> drawn w)\<rparr>)"
  by (simp add: admit_x_def Math_random_def split: option.split)

lemma admit_y_eq:
  "admit_y s w =
     (s\<lparr>seed_y := Some (case seed_y s of
           None \<Rightarrow> random (draws w (drawn w)) 0 (height w - 1 - appearance_height s - padding w)
         | Some y \<Rightarrow> y)\<rparr>,
      w\<lparr>drawn := (case seed_y s of None \<Rightarrow> Suc (drawn w) | Some y \<Rightarrow> drawn w)\<rparr>)"
  by (simp add: admit_y_def Math_random_def split: option.split)

lemma admit_seed_shape:
  "\<exists>s n. admit_seed env K dat w = (s, w\<lparr>nextSeedId := nextSeedId w + 1, drawn := n\<rparr>) \<and>
     drawn w \<le> n \<and> n \<le> drawn w + 2 \<and>
     seed_class s = K \<and> seed_id s = nextSeedId w \<and> seed_tickMod s = tickMod w \<and>
     tickCount s = baseTickCount env K dat w \<and>
     actionInterval s = actionInterval (Seed_new env K dat) \<and>
     appearance_width s = appearance_width (Seed_new env K dat) \<and>
     appearance_height s = appearance_height (Seed_new env K dat) \<and>
     married s = married (Seed_new env K dat) \<and>
     relationSeed s = relationSeed (Seed_new env K dat) \<and>
     tileIndex s \<in> range (Tile_getIndex env) \<and>
     seed_x s = Some (case seed_x (Seed_new env K dat) of
         None \<Rightarrow> random (draws w (drawn w)) 0
                  (width w - 1 - max (appearance_width (Seed_new env K dat)) (padding w))
       | Some x \<Rightarrow> x) \<and>
     seed_y s = Some (case seed_y (Seed_new env K dat) of
         None \<Rightarrow> random (draws w (case seed_x (Seed_new env K dat) of
                                      None \<Rightarrow> Suc (drawn w) | Some x \<Rightarrow> drawn w)) 0
                  (height w - 1 - appearance_height (Seed_new env K dat) - padding w)
       | Some y \<Rightarrow> y)"
  apply (rule exI[of _ "fst (admit_seed env K dat w)"])
  apply (rule exI[of _ "drawn (snd (admit_seed env K dat w))"])
  apply (simp add: admit_seed_def admit_fields_def baseTickCount_def admit_x_eq admit_y_eq Let_def)
  apply (simp split: option.split)
  done




lemma baseTickCount_eq:
  "baseTickCount env K dat w =
     (case data_age dat of
        None \<Rightarrow> tickCount (Seed_new env K dat)
      | Some a \<Rightarrow> if 0 < a then a * tickPerYear w else tickCount (Seed_new env K dat))"
  by (simp add: baseTickCount_def admit_fields_def Let_def split: option.split)

lemma baseTickCount_nextRef [simp]:
  "baseTickCount env K dat (w\<lparr>nextRef := k\<rparr>) = baseTickCount env K dat w"
  by (simp add: baseTickCount_eq split: option.split)

lemma add_cases:
  assumes "add env K dat w = Inr w'"
  obtains s n m where
    "w' = w\<lparr>nextRef := Suc (nextRef w), nextSeedId := nextSeedId w + 1, drawn := n,
            Tile_list := (Tile_list w)[tileIndex s := place (nextRef w) (Tile_list w ! tileIndex s)],
            distributedTicks := (distributedTicks w)[least_loaded (distributedTicks w) :=
                distributedTicks w ! least_loaded (distributedTicks w) + 1],
            objects := (objects w)(nextRef w :=
                s\<lparr>tickIndex := least_loaded (distributedTicks w),
                  tickCount := tickCount s + m, stepCount := tickCount s + m\<rparr>),
            collab := Statistic_seedAdded env
                (s\<lparr>tickIndex := least_loaded (distributedTicks w),
                  tickCount := tickCount s + m, stepCount := tickCount s + m\<rparr>) (collab w)\<rparr>"
    "s = fst (admit_seed env K dat (w\<lparr>nextRef := Suc (nextRef w)\<rparr>))"
    "drawn w \<le> n"
    "tileIndex s < length (Tile_list w)"
    "distributedTicks w \<noteq> []"
    "js_rem (tickMod w + tickCount s + int (least_loaded (distributedTicks w)))
       (actionInterval s) = Some m"
proof -
  let ?w = "w\<lparr>nextRef := Suc (nextRef w)\<rparr>"
  obtain s n where sn: "admit_seed env K dat ?w =
       (s, w\<lparr>nextRef := Suc (nextRef w), nextSeedId := nextSeedId w + 1, drawn := n\<rparr>)"
    and n: "drawn w \<le> n"
    using admit_seed_shape[of env K dat ?w] by auto
  have fs: "s = fst (admit_seed env K dat ?w)" by (simp add: sn)
  have "\<exists>m. js_rem (tickMod w + tickCount s + int (least_loaded (distributedTicks w)))
              (actionInterval s) = Some m \<and>
            tileIndex s < length (Tile_list w) \<and> distributedTicks w \<noteq> [] \<and>
            w\<lparr>nextRef := Suc (nextRef w), nextSeedId := nextSeedId w + 1, drawn := n,
            Tile_list := (Tile_list w)[tileIndex s := place (nextRef w) (Tile_list w ! tileIndex s)],
            distributedTicks := (distributedTicks w)[least_loaded (distributedTicks w) :=
                distributedTicks w ! least_loaded (distributedTicks w) + 1],
            objects := (objects w)(nextRef w :=
                s\<lparr>tickIndex := least_loaded (distributedTicks w),
                  tickCount := tickCount s + m, stepCount := tickCount s + m\<rparr>),
            collab := Statistic_seedAdded env
                (s\<lparr>tickIndex := least_loaded (distributedTicks w),
                  tickCount := tickCount s + m, stepCount := tickCount s + m\<rparr>) (collab w)\<rparr> = w'"
    using assms
    by (simp add: add_def Let_def sn Tile_set_def split: if_splits option.splits)
  then obtain m where m: "js_rem (tickMod w + tickCount s + int (least_loaded (distributedTicks w)))
              (actionInterval s) = Some m"
    and t: "tileIndex s < length (Tile_list w)" and d: "distributedTicks w \<noteq> []"
    and w': "w\<lparr>nextRef := Suc (nextRef w), nextSeedId := nextSeedId w + 1, drawn := n,
            Tile_list := (Tile_list w)[tileIndex s := place (nextRef w) (Tile_list w ! tileIndex s)],
            distributedTicks := (distributedTicks w)[least_loaded (distributedTicks w) :=
                distributedTicks w ! least_loaded (distributedTicks w) + 1],
            objects := (objects w)(nextRef w :=
                s\<lparr>tickIndex := least_loaded (distributedTicks w),
                  tickCount := tickCount s + m, stepCount := tickCount s + m\<rparr>),
            collab := Statistic_seedAdded env
                (s\<lparr>tickIndex := least_loaded (distributedTicks w),
                  tickCount := tickCount s + m, stepCount := tickCount s + m\<rparr>) (collab w)\<rparr> = w'"
    by (elim exE conjE)
  show ?thesis
    by (rule that[OF w'[symmetric] fs n t d m])
qed


lemma admit_seed_fields:
  fixes env K dat w
  defines "s \<equiv> fst (admit_seed env K dat w)"
  shows "seed_class s = K" "seed_id s = nextSeedId w" "seed_tickMod s = tickMod w"
    "tickCount s = baseTickCount env K dat w"
    "actionInterval s = actionInterval (Seed_new env K dat)"
    "appearance_width s = appearance_width (Seed_new env K dat)"
    "appearance_height s = appearance_height (Seed_new env K dat)"
    "married s = married (Seed_new env K dat)"
    "relationSeed s = relationSeed (Seed_new env K dat)"
    "tileIndex s \<in> range (Tile_getIndex env)"
    "seed_x s = Some (case seed_x (Seed_new env K dat) of
         None \<Rightarrow> random (draws w (drawn w)) 0
                  (width w - 1 - max (appearance_width (Seed_new env K dat)) (padding w))
       | Some x \<Rightarrow> x)"
    "seed_y s = Some (case seed_y (Seed_new env K dat) of
         None \<Rightarrow> random (draws w (case seed_x (Seed_new env K dat) of
                                      None \<Rightarrow> Suc (drawn w) | Some x \<Rightarrow> drawn w)) 0
                  (height w - 1 - appearance_height (Seed_new env K dat) - padding w)
       | Some y \<Rightarrow> y)"
proof -
  obtain s' n where "admit_seed env K dat w = (s', w\<lparr>nextSeedId := nextSeedId w + 1, drawn := n\<rparr>)"
   and "seed_class s' = K" "seed_id s' = nextSeedId w" "seed_tickMod s' = tickMod w"
    "tickCount s' = baseTickCount env K dat w"
    "actionInterval s' = actionInterval (Seed_new env K dat)"
    "appearance_width s' = appearance_width (Seed_new env K dat)"
    "appearance_height s' = appearance_height (Seed_new env K dat)"
    "married s' = married (Seed_new env K dat)"
    "relationSeed s' = relationSeed (Seed_new env K dat)"
    "tileIndex s' \<in> range (Tile_getIndex env)"
    "seed_x s' = Some (case seed_x (Seed_new env K dat) of
         None \<Rightarrow> random (draws w (drawn w)) 0
                  (width w - 1 - max (appearance_width (Seed_new env K dat)) (padding w))
       | Some x \<Rightarrow> x)"
    "seed_y s' = Some (case seed_y (Seed_new env K dat) of
         None \<Rightarrow> random (draws w (case seed_x (Seed_new env K dat) of
                                      None \<Rightarrow> Suc (drawn w) | Some x \<Rightarrow> drawn w)) 0
                  (height w - 1 - appearance_height (Seed_new env K dat) - padding w)
       | Some y \<Rightarrow> y)"
    using admit_seed_shape[of env K dat w] by (elim exE conjE)
  moreover from this have "s = s'" by (simp add: s_def)
  ultimately show "seed_class s = K" "seed_id s = nextSeedId w" "seed_tickMod s = tickMod w"
    "tickCount s = baseTickCount env K dat w"
    "actionInterval s = actionInterval (Seed_new env K dat)"
    "appearance_width s = appearance_width (Seed_new env K dat)"
    "appearance_height s = appearance_height (Seed_new env K dat)"
    "married s = married (Seed_new env K dat)"
    "relationSeed s = relationSeed (Seed_new env K dat)"
    "tileIndex s \<in> range (Tile_getIndex env)"
    "seed_x s = Some (case seed_x (Seed_new env K dat) of
         None \<Rightarrow> random (draws w (drawn w)) 0
                  (width w - 1 - max (appearance_width (Seed_new env K dat)) (padding w))
       | Some x \<Rightarrow> x)"
    "seed_y s = Some (case seed_y (Seed_new env K dat) of
         None \<Rightarrow> random (draws w (case seed_x (Seed_new env K dat) of
                                      None \<Rightarrow> Suc (drawn w) | Some x \<Rightarrow> drawn w)) 0
                  (height w - 1 - appearance_height (Seed_new env K dat) - padding w)
       | Some y \<Rightarrow> y)"
    by simp_all
qed

lemma admit_seed_nextRef:
  "fst (admit_seed env K dat (w\<lparr>nextRef := k\<rparr>)) = fst (admit_seed env K dat w)"
  by (simp add: admit_seed_def admit_fields_def admit_x_eq admit_y_eq Let_def split: option.split)

text \<open>
  An admission returns when there is a frame counter, the action interval of the new seed
  is not zero and the tile index calculated for it is inside the tile list.
\<close>

lemma add_returns:
  assumes "distributedTicks w \<noteq> []" "actionInterval (Seed_new env K dat) \<noteq> 0"
    "tileIndex (fst (admit_seed env K dat w)) < length (Tile_list w)"
  shows "\<exists>w'. add env K dat w = Inr w'"
proof -
  let ?w = "w\<lparr>nextRef := Suc (nextRef w)\<rparr>"
  obtain s w1 where sn: "admit_seed env K dat ?w = (s, w1)"
    by (cases "admit_seed env K dat ?w")
  have s: "s = fst (admit_seed env K dat ?w)" by (simp add: sn)
  have ai: "actionInterval s \<noteq> 0"
    using assms(2) by (simp add: s admit_seed_fields)
  have ti: "tileIndex s < length (Tile_list w)"
    using assms(3) by (simp add: s admit_seed_nextRef)
  have w1: "Tile_list w1 = Tile_list w" "distributedTicks w1 = distributedTicks w"
    using admit_seed_shape[of env K dat ?w] sn by auto
  show ?thesis
    using assms(1) ai ti
    by (simp add: add_def Let_def sn Tile_set_def w1 js_rem_def)
qed

lemma add_new_seed:
  assumes "add env K dat w = Inr w'"
  shows "seed_class (objects w' (nextRef w)) = K"
    "seed_id (objects w' (nextRef w)) = nextSeedId w"
    "seed_tickMod (objects w' (nextRef w)) = tickMod w"
    "actionInterval (objects w' (nextRef w)) = actionInterval (Seed_new env K dat)"
    "appearance_width (objects w' (nextRef w)) = appearance_width (Seed_new env K dat)"
    "appearance_height (objects w' (nextRef w)) = appearance_height (Seed_new env K dat)"
    "married (objects w' (nextRef w)) = married (Seed_new env K dat)"
    "relationSeed (objects w' (nextRef w)) = relationSeed (Seed_new env K dat)"
    "tickIndex (objects w' (nextRef w)) = least_loaded (distributedTicks w)"
    "tileIndex (objects w' (nextRef w)) < length (Tile_list w)"
    "seed_x (objects w' (nextRef w)) = Some (case seed_x (Seed_new env K dat) of
         None \<Rightarrow> random (draws w (drawn w)) 0
                  (width w - 1 - max (appearance_width (Seed_new env K dat)) (padding w))
       | Some x \<Rightarrow> x)"
    "seed_y (objects w' (nextRef w)) = Some (case seed_y (Seed_new env K dat) of
         None \<Rightarrow> random (draws w (case seed_x (Seed_new env K dat) of
                                      None \<Rightarrow> Suc (drawn w) | Some x \<Rightarrow> drawn w)) 0
                  (height w - 1 - appearance_height (Seed_new env K dat) - padding w)
       | Some y \<Rightarrow> y)"
proof -
  from assms obtain s n m where w': "w' = w\<lparr>nextRef := Suc (nextRef w), nextSeedId := nextSeedId w + 1, drawn := n,
            Tile_list := (Tile_list w)[tileIndex s := place (nextRef w) (Tile_list w ! tileIndex s)],
            distributedTicks := (distributedTicks w)[least_loaded (distributedTicks w) :=
                distributedTicks w ! least_loaded (distributedTicks w) + 1],
            objects := (objects w)(nextRef w :=
                s\<lparr>tickIndex := least_loaded (distributedTicks w),
                  tickCount := tickCount s + m, stepCount := tickCount s + m\<rparr>),
            collab := Statistic_seedAdded env
                (s\<lparr>tickIndex := least_loaded (distributedTicks w),
                  tickCount := tickCount s + m, stepCount := tickCount s + m\<rparr>) (collab w)\<rparr>"
    and s: "s = fst (admit_seed env K dat (w\<lparr>nextRef := Suc (nextRef w)\<rparr>))"
    and t: "tileIndex s < length (Tile_list w)"
    by (rule add_cases)
  note f = admit_seed_fields[of env K dat "w\<lparr>nextRef := Suc (nextRef w)\<rparr>", folded s, simplified]
  show "seed_class (objects w' (nextRef w)) = K"
    "seed_id (objects w' (nextRef w)) = nextSeedId w"
    "seed_tickMod (objects w' (nextRef w)) = tickMod w"
    "actionInterval (objects w' (nextRef w)) = actionInterval (Seed_new env K dat)"
    "appearance_width (objects w' (nextRef w)) = appearance_width (Seed_new env K dat)"
    "appearance_height (objects w' (nextRef w)) = appearance_height (Seed_new env K dat)"
    "married (objects w' (nextRef w)) = married (Seed_new env K dat)"
    "relationSeed (objects w' (nextRef w)) = relationSeed (Seed_new env K dat)"
    "tickIndex (objects w' (nextRef w)) = least_loaded (distributedTicks w)"
    "tileIndex (objects w' (nextRef w)) < length (Tile_list w)"
    using t by (simp_all add: w' f)
  show "seed_x (objects w' (nextRef w)) = Some (case seed_x (Seed_new env K dat) of
         None \<Rightarrow> random (draws w (drawn w)) 0
                  (width w - 1 - max (appearance_width (Seed_new env K dat)) (padding w))
       | Some x \<Rightarrow> x)"
    using f(11) by (simp add: w' split: option.splits)
  show "seed_y (objects w' (nextRef w)) = Some (case seed_y (Seed_new env K dat) of
         None \<Rightarrow> random (draws w (case seed_x (Seed_new env K dat) of
                                      None \<Rightarrow> Suc (drawn w) | Some x \<Rightarrow> drawn w)) 0
                  (height w - 1 - appearance_height (Seed_new env K dat) - padding w)
       | Some y \<Rightarrow> y)"
    using f(12) by (simp add: w' split: option.splits)
qed

lemma add_world:
  assumes "add env K dat w = Inr w'"
  shows "nextSeedId w' = nextSeedId w + 1" "nextRef w' = Suc (nextRef w)"
    "tickMod w' = tickMod w" "tickPerYear w' = tickPerYear w" "width w' = width w"
    "height w' = height w" "padding w' = padding w" "draws w' = draws w"
    "running w' = running w" "stopCallback w' = stopCallback w"
    "length (Tile_list w') = length (Tile_list w)"
    "drawn w \<le> drawn w'"
    "distributedTicks w \<noteq> []"
    "distributedTicks w' = (distributedTicks w)[least_loaded (distributedTicks w) :=
        distributedTicks w ! least_loaded (distributedTicks w) + 1]"
    "\<And>q. q \<noteq> nextRef w \<Longrightarrow> objects w' q = objects w q"
proof -
  from assms obtain s n m where w': "w' = w\<lparr>nextRef := Suc (nextRef w), nextSeedId := nextSeedId w + 1, drawn := n,
            Tile_list := (Tile_list w)[tileIndex s := place (nextRef w) (Tile_list w ! tileIndex s)],
            distributedTicks := (distributedTicks w)[least_loaded (distributedTicks w) :=
                distributedTicks w ! least_loaded (distributedTicks w) + 1],
            objects := (objects w)(nextRef w :=
                s\<lparr>tickIndex := least_loaded (distributedTicks w),
                  tickCount := tickCount s + m, stepCount := tickCount s + m\<rparr>),
            collab := Statistic_seedAdded env
                (s\<lparr>tickIndex := least_loaded (distributedTicks w),
                  tickCount := tickCount s + m, stepCount := tickCount s + m\<rparr>) (collab w)\<rparr>"
    and n: "drawn w \<le> n" and d: "distributedTicks w \<noteq> []"
    by (rule add_cases)
  show "nextSeedId w' = nextSeedId w + 1" "nextRef w' = Suc (nextRef w)"
    "tickMod w' = tickMod w" "tickPerYear w' = tickPerYear w" "width w' = width w"
    "height w' = height w" "padding w' = padding w" "draws w' = draws w"
    "running w' = running w" "stopCallback w' = stopCallback w"
    "length (Tile_list w') = length (Tile_list w)"
    "drawn w \<le> drawn w'"
    "distributedTicks w \<noteq> []"
    "distributedTicks w' = (distributedTicks w)[least_loaded (distributedTicks w) :=
        distributedTicks w ! least_loaded (distributedTicks w) + 1]"
    "\<And>q. q \<noteq> nextRef w \<Longrightarrow> objects w' q = objects w q"
    using n d by (simp_all add: w')
qed

lemma least_loaded_zeros: "least_loaded (replicate (Suc n) 0) = 0"
proof (rule ccontr)
  assume "least_loaded (replicate (Suc n) 0) \<noteq> 0"
  then have p: "0 < least_loaded (replicate (Suc n) 0)" by simp
  have ne: "replicate (Suc n) (0::int) \<noteq> []" by simp
  from least_loaded_min(1)[OF ne] have l: "least_loaded (replicate (Suc n) 0) < Suc n" by simp
  from least_loaded_min(3)[OF ne] p
  have "replicate (Suc n) (0::int) ! least_loaded (replicate (Suc n) 0) < replicate (Suc n) 0 ! 0"
    by blast
  with l show False by (simp del: replicate_Suc)
qed

lemma js_rem_le: "js_rem a b = Some m \<Longrightarrow> \<bar>m\<bar> \<le> \<bar>a\<bar>"
proof -
  assume "js_rem a b = Some m"
  then have b: "b \<noteq> 0" and m: "m = sgn a * (\<bar>a\<bar> mod \<bar>b\<bar>)"
    by (auto simp: js_rem_def split: if_splits)
  have "\<bar>a\<bar> mod \<bar>b\<bar> \<le> \<bar>a\<bar>"
    using b by (intro zmod_le_nonneg_dividend) simp
  moreover have "0 \<le> \<bar>a\<bar> mod \<bar>b\<bar>"
    using b by simp
  ultimately show ?thesis
    unfolding m by (simp add: abs_mult abs_sgn_eq)
qed

subsection \<open>The frame and the tick count of a new seed\<close>

lemma demo_third:
  "\<not> isl (add demo_env Male demo_data demo_two)"
  "least_loaded (distributedTicks demo_two) = 2"
  "take 4 (distributedTicks demo_two) = [1, 1, 0, 0]"
  "distributedTicks demo_two ! 2 = 0"
  "nextRef demo_two = 2"
  by code_simp+

text \<open>
  Claim C3. An admission that returns assigns the new seed the frame \<open>p\<close> whose counter is
  a minimum of \<^verbatim>\<open>distributedTicks\<close>, the lowest such index; that counter, and no other,
  is incremented by one. The counters of a constructed world are \<^verbatim>\<open>tickPerYear - 1\<close>
  in number.
\<close>

theorem add_assigns_least_loaded_frame:
  assumes "add env K dat w = Inr w'"
  shows "(let dt = distributedTicks w; p = tickIndex (objects w' (nextRef w))
          in p < length dt \<and>
             (\<forall>i<length dt. dt ! p \<le> dt ! i) \<and>
             (\<forall>i<p. dt ! p < dt ! i) \<and>
             distributedTicks w' = dt[p := dt ! p + 1]) \<and>
         length (distributedTicks (WorldJS c tiles cap rnd)) =
           nat (tickPerYear (WorldJS c tiles cap rnd) - 1)"
proof -
  have ne: "distributedTicks w \<noteq> []"
    by (rule add_world(13)[OF assms])
  have p: "tickIndex (objects w' (nextRef w)) = least_loaded (distributedTicks w)"
    by (rule add_new_seed(9)[OF assms])
  have "length (distributedTicks (WorldJS c tiles cap rnd)) =
           nat (tickPerYear (WorldJS c tiles cap rnd) - 1)"
    by (simp add: WorldJS_def)
  then show ?thesis
    using add_world(14)[OF assms] least_loaded_min[OF ne] by (simp add: Let_def p)
qed

text \<open>
  On the small world after two admissions the counters are 1, 1, 0, 0, ...: the scan
  moves on from frame 0 at frame 2, and the third seed takes frame 2.
\<close>

theorem add_assigns_least_loaded_frame_witness:
  "\<exists>w'. add demo_env Male demo_data demo_two = Inr w' \<and>
      tickIndex (objects w' 2) = 2 \<and>
      take 4 (distributedTicks w') = [1, 1, 1, 0]"
proof -
  obtain w' where a: "add demo_env Male demo_data demo_two = Inr w'"
    using demo_third(1) by (cases "add demo_env Male demo_data demo_two") simp_all
  have p: "tickIndex (objects w' 2) = 2"
    using add_new_seed(9)[OF a] by (simp add: demo_third)
  from conjunct1[OF add_assigns_least_loaded_frame[OF a]]
  have "distributedTicks w' = (distributedTicks demo_two)[2 := distributedTicks demo_two ! 2 + 1]"
    by (simp add: Let_def demo_third p)
  then have "take 4 (distributedTicks w') = [1, 1, 1, 0]"
    by (simp add: take_update_swap demo_third)
  with a p show ?thesis by blast
qed

text \<open>
  Claim C4. With \<open>b\<close> the tick count the seed has from its starting age, \<open>g\<close> the tick
  counter of the world and \<open>p\<close> the frame assigned, an admission that returns sets the
  tick count of the seed to \<open>b + m\<close>, where \<open>m\<close> is the remainder
  \<^verbatim>\<open>(g + b + p) % actionInterval\<close>, and the step count to the same value. For a
  non-negative \<open>g + b\<close> and a positive interval the remainder is
  \<open>(g + b + p) mod actionInterval\<close>. For a positive starting age \<open>a\<close>, \<open>b\<close> is
  \<open>a * tickPerYear\<close>. The magnitudes are bounded so that every sum of the source is a
  safe integer, \<open>b\<close>, \<open>g + b\<close>, \<open>g + b + p\<close> and \<open>b + m\<close> among them.
\<close>

theorem add_staggers_tick_count:
  assumes "add env K dat w = Inr w'"
    and "\<bar>tickMod w\<bar> + 2 * \<bar>baseTickCount env K dat w\<bar> + int (length (distributedTicks w))
           < 2 ^ 53"
  shows "\<exists>m. (let s = objects w' (nextRef w);
                  b = baseTickCount env K dat w;
                  g = tickMod w;
                  p = int (tickIndex s)
              in js_rem (g + b + p) (actionInterval s) = Some m \<and>
                 tickCount s = b + m \<and>
                 stepCount s = tickCount s \<and>
                 (0 \<le> g + b \<and> 0 < actionInterval s \<longrightarrow> m = (g + b + p) mod actionInterval s) \<and>
                 (\<forall>a. data_age dat = Some a \<and> 0 < a \<longrightarrow> b = a * tickPerYear w) \<and>
                 safe_integer b \<and> safe_integer (g + b) \<and> safe_integer (g + b + p) \<and>
                 safe_integer (b + m))"
proof -
  from assms(1) obtain s n m where w': "w' = w\<lparr>nextRef := Suc (nextRef w), nextSeedId := nextSeedId w + 1, drawn := n,
            Tile_list := (Tile_list w)[tileIndex s := place (nextRef w) (Tile_list w ! tileIndex s)],
            distributedTicks := (distributedTicks w)[least_loaded (distributedTicks w) :=
                distributedTicks w ! least_loaded (distributedTicks w) + 1],
            objects := (objects w)(nextRef w :=
                s\<lparr>tickIndex := least_loaded (distributedTicks w),
                  tickCount := tickCount s + m, stepCount := tickCount s + m\<rparr>),
            collab := Statistic_seedAdded env
                (s\<lparr>tickIndex := least_loaded (distributedTicks w),
                  tickCount := tickCount s + m, stepCount := tickCount s + m\<rparr>) (collab w)\<rparr>"
    and s: "s = fst (admit_seed env K dat (w\<lparr>nextRef := Suc (nextRef w)\<rparr>))"
    and ne: "distributedTicks w \<noteq> []"
    and m: "js_rem (tickMod w + tickCount s + int (least_loaded (distributedTicks w)))
       (actionInterval s) = Some m"
    by (rule add_cases)
  let ?b = "baseTickCount env K dat w"
  let ?p = "int (least_loaded (distributedTicks w))"
  have b: "tickCount s = ?b"
    unfolding s by (simp add: admit_seed_fields)
  let ?s = "objects w' (nextRef w)"
  have f: "tickIndex ?s = least_loaded (distributedTicks w)"
    "actionInterval ?s = actionInterval s"
    "tickCount ?s = ?b + m"
    "stepCount ?s = ?b + m"
    by (simp_all add: w' b)
  have md: "0 \<le> tickMod w + ?b \<and> 0 < actionInterval s \<longrightarrow>
      m = (tickMod w + ?b + ?p) mod actionInterval s"
    using m b by (auto simp: js_rem_mod)
  have ag: "\<forall>a. data_age dat = Some a \<and> 0 < a \<longrightarrow> ?b = a * tickPerYear w"
    by (simp add: baseTickCount_eq)
  have pl: "?p < int (length (distributedTicks w))"
    using least_loaded_min(1)[OF ne] by simp
  have ml: "\<bar>m\<bar> \<le> \<bar>tickMod w + ?b + ?p\<bar>"
    using js_rem_le[OF m] by (simp add: b)
  have safe: "safe_integer ?b" "safe_integer (tickMod w + ?b)" "safe_integer (tickMod w + ?b + ?p)"
    "safe_integer (?b + m)"
    using assms(2) pl ml unfolding safe_integer_def by linarith+
  show ?thesis
    using m b f md ag safe by (auto simp: Let_def)
qed

text \<open>On the small world at tick 7: a seed of age 15 starts at 900 + 907 mod 30 = 907.\<close>

theorem add_staggers_tick_count_witness:
  "\<exists>w'. add demo_env Male demo_data (demo_world\<lparr>tickMod := 7\<rparr>) = Inr w' \<and>
      tickCount (objects w' 0) = 900 + (7 + 900 + 0) mod 30 \<and>
      stepCount (objects w' 0) = 907"
proof -
  let ?w = "demo_world\<lparr>tickMod := 7\<rparr>"
  have "\<not> isl (add demo_env Male demo_data ?w)" by code_simp
  then obtain w' where a: "add demo_env Male demo_data ?w = Inr w'"
    by (cases "add demo_env Male demo_data ?w") simp_all
  have b: "baseTickCount demo_env Male demo_data ?w = 900"
    by (simp add: baseTickCount_eq demo_data_def demo_world_def WorldJS_def)
  have r: "nextRef ?w = 0" "tickMod ?w = 7" "length (distributedTicks ?w) = 59"
    by (simp_all add: demo_world_def WorldJS_def)
  have bound: "\<bar>tickMod ?w\<bar> + 2 * \<bar>baseTickCount demo_env Male demo_data ?w\<bar>
      + int (length (distributedTicks ?w)) < 2 ^ 53"
    unfolding b r by simp
  from add_staggers_tick_count[OF a bound]
  obtain m where
    rest: "js_rem (7 + 900 + int (tickIndex (objects w' 0))) (actionInterval (objects w' 0)) = Some m"
      "tickCount (objects w' 0) = 900 + m" "stepCount (objects w' 0) = tickCount (objects w' 0)"
      "0 < actionInterval (objects w' 0) \<longrightarrow>
         m = (7 + 900 + int (tickIndex (objects w' 0))) mod actionInterval (objects w' 0)"
    unfolding Let_def b r by auto
  have ai: "actionInterval (objects w' 0) = 30" "tickIndex (objects w' 0) = 0"
    using add_new_seed(4)[OF a] add_new_seed(9)[OF a] least_loaded_zeros[of 58]
    by (simp_all add: r demo_env_def demo_seed_def demo_world_def WorldJS_def)
  from rest ai have "m = 7" by simp
  with a rest show ?thesis by simp
qed

subsection \<open>What an eviction returns\<close>

lemma unmarry_single:
  "\<not> married (objects w r) \<Longrightarrow> unmarry r w = Inr w"
  by (simp add: unmarry_def)

lemma unmarry_cases:
  assumes "unmarry r w = Inr w'"
  shows "w' = w\<lparr>objects := objects w'\<rparr>"
    and "\<not> married (objects w r) \<Longrightarrow> objects w' = objects w"
    and "married (objects w r) \<Longrightarrow>
           \<exists>b. relationSeed (objects w r) = Some b \<and>
               (\<forall>q. objects w' q =
                  (if q = r \<or> q = b then (objects w q)\<lparr>married := False, relationSeed := None\<rparr>
                   else objects w q))"
proof -
  show "w' = w\<lparr>objects := objects w'\<rparr>"
    using assms by (auto simp: unmarry_def Let_def split: if_splits option.splits)
  show "\<not> married (objects w r) \<Longrightarrow> objects w' = objects w"
    using assms by (auto simp: unmarry_def)
  show "\<exists>b. relationSeed (objects w r) = Some b \<and>
               (\<forall>q. objects w' q =
                  (if q = r \<or> q = b then (objects w q)\<lparr>married := False, relationSeed := None\<rparr>
                   else objects w q))" if m: "married (objects w r)"
  proof (cases "relationSeed (objects w r)")
    case None
    with m assms show ?thesis by (simp add: unmarry_def Let_def)
  next
    case (Some b)
    with m assms have "\<forall>q. objects w' q =
                  (if q = r \<or> q = b then (objects w q)\<lparr>married := False, relationSeed := None\<rparr>
                   else objects w q)"
      by (cases "r = b") (auto simp: unmarry_def Let_def)
    with Some show ?thesis by simp
  qed
qed

lemma unmarry_returns:
  assumes "married (objects w r) \<Longrightarrow> relationSeed (objects w r) \<noteq> None"
  shows "\<exists>w'. unmarry r w = Inr w'"
proof (cases "married (objects w r)")
  case False
  then show ?thesis by (simp add: unmarry_def)
next
  case True
  with assms obtain b where "relationSeed (objects w r) = Some b" by auto
  with True show ?thesis by (simp add: unmarry_def Let_def)
qed

lemma unmarry_frame:
  assumes "unmarry r w = Inr w'"
  shows "distributedTicks w' = distributedTicks w" "Tile_list w' = Tile_list w"
    "nextRef w' = nextRef w" "collab w' = collab w" "nextSeedId w' = nextSeedId w"
    "tickIndex (objects w' q) = tickIndex (objects w q)"
    "tileIndex (objects w' q) = tileIndex (objects w q)"
proof -
  note c = unmarry_cases[OF assms]
  show "distributedTicks w' = distributedTicks w" "Tile_list w' = Tile_list w"
    "nextRef w' = nextRef w" "collab w' = collab w" "nextSeedId w' = nextSeedId w"
    using arg_cong[OF c(1), of distributedTicks] arg_cong[OF c(1), of Tile_list]
      arg_cong[OF c(1), of nextRef] arg_cong[OF c(1), of collab] arg_cong[OF c(1), of nextSeedId]
    by simp_all
  have "tickIndex (objects w' q) = tickIndex (objects w q) \<and>
        tileIndex (objects w' q) = tileIndex (objects w q)"
  proof (cases "married (objects w r)")
    case False
    from c(2)[OF False] show ?thesis by simp
  next
    case True
    from c(3)[OF True] obtain b where
      "objects w' q = (if q = r \<or> q = b
         then (objects w q)\<lparr>married := False, relationSeed := None\<rparr> else objects w q)"
      by blast
    then show ?thesis by simp
  qed
  then show "tickIndex (objects w' q) = tickIndex (objects w q)"
    "tileIndex (objects w' q) = tileIndex (objects w q)" by simp_all
qed

lemma remove_cases:
  assumes "remove env r w = Inr w'"
  obtains w1 where
    "unmarry r (w\<lparr>collab := Statistic_seedRemoved env (objects w r) (collab w)\<rparr>) = Inr w1"
    "tileIndex (objects w r) < length (Tile_list w)"
    "tickIndex (objects w r) < length (distributedTicks w)"
    "w' = w1\<lparr>Tile_list := (Tile_list w)[tileIndex (objects w r) :=
                 vacate r (Tile_list w ! tileIndex (objects w r))],
            distributedTicks := (distributedTicks w)[tickIndex (objects w r) :=
                 distributedTicks w ! tickIndex (objects w r) - 1]\<rparr>"
proof -
  let ?w = "w\<lparr>collab := Statistic_seedRemoved env (objects w r) (collab w)\<rparr>"
  from assms obtain w1 where u: "unmarry r ?w = Inr w1"
    by (auto simp: remove_def Let_def split: sum.splits)
  note f = unmarry_frame[OF u, simplified]
  from assms u have t: "tileIndex (objects w r) < length (Tile_list w)"
    by (auto simp: remove_def Let_def Tile_rem_def f split: sum.splits if_splits)
  from assms u t have k: "tickIndex (objects w r) < length (distributedTicks w)"
    by (auto simp: remove_def Let_def Tile_rem_def f split: sum.splits if_splits)
  from assms u t k have "w' = w1\<lparr>Tile_list := (Tile_list w)[tileIndex (objects w r) :=
                 vacate r (Tile_list w ! tileIndex (objects w r))],
            distributedTicks := (distributedTicks w)[tickIndex (objects w r) :=
                 distributedTicks w ! tickIndex (objects w r) - 1]\<rparr>"
    by (auto simp: remove_def Let_def Tile_rem_def f)
  with u t k show ?thesis by (rule that)
qed

lemma remove_returns:
  assumes "unmarry r (w\<lparr>collab := Statistic_seedRemoved env (objects w r) (collab w)\<rparr>) = Inr w1"
    "tileIndex (objects w r) < length (Tile_list w)"
    "tickIndex (objects w r) < length (distributedTicks w)"
  shows "remove env r w = Inr (w1\<lparr>Tile_list := (Tile_list w)[tileIndex (objects w r) :=
                 vacate r (Tile_list w ! tileIndex (objects w r))],
            distributedTicks := (distributedTicks w)[tickIndex (objects w r) :=
                 distributedTicks w ! tickIndex (objects w r) - 1]\<rparr>)"
  using assms unmarry_frame[OF assms(1), simplified]
  by (simp add: remove_def Let_def Tile_rem_def)

lemma remove_world:
  assumes "remove env r w = Inr w'"
  shows "nextRef w' = nextRef w" "nextSeedId w' = nextSeedId w"
    "tickIndex (objects w r) < length (distributedTicks w)"
    "distributedTicks w' = (distributedTicks w)[tickIndex (objects w r) :=
        distributedTicks w ! tickIndex (objects w r) - 1]"
    "\<And>q. tickIndex (objects w' q) = tickIndex (objects w q)"
proof -
  from assms obtain w1 where
    u: "unmarry r (w\<lparr>collab := Statistic_seedRemoved env (objects w r) (collab w)\<rparr>) = Inr w1"
    and k: "tickIndex (objects w r) < length (distributedTicks w)"
    and w': "w' = w1\<lparr>Tile_list := (Tile_list w)[tileIndex (objects w r) :=
                 vacate r (Tile_list w ! tileIndex (objects w r))],
            distributedTicks := (distributedTicks w)[tickIndex (objects w r) :=
                 distributedTicks w ! tickIndex (objects w r) - 1]\<rparr>"
    by (rule remove_cases)
  note f = unmarry_frame[OF u, simplified]
  show "nextRef w' = nextRef w" "nextSeedId w' = nextSeedId w"
    "tickIndex (objects w r) < length (distributedTicks w)"
    "distributedTicks w' = (distributedTicks w)[tickIndex (objects w r) :=
        distributedTicks w ! tickIndex (objects w r) - 1]"
    "\<And>q. tickIndex (objects w' q) = tickIndex (objects w q)"
    using k by (simp_all add: w' f)
qed


subsection \<open>Eviction and marriage\<close>

lemma demo_evictions:
  "\<not> isl (remove demo_env 0 demo_couple)"
  "married (objects demo_couple 0)" "relationSeed (objects demo_couple 0) = Some 1"
  "married (objects demo_couple 1)" "relationSeed (objects demo_couple 1) = Some 0"
  "\<not> isl (remove demo_env 1 demo_two)" "\<not> married (objects demo_two 1)"
  by code_simp+

text \<open>
  Claim C5. An eviction that returns, of a seed \<open>a\<close> that is married, finds the partner
  \<open>b\<close> in \<^verbatim>\<open>a.relationSeed\<close> and leaves both \<^verbatim>\<open>married\<close> flags false and both
  \<^verbatim>\<open>relationSeed\<close> links absent; every other seed object is as it was, and when \<open>b\<close> was
  the only seed that referred to \<open>a\<close>, no seed refers to \<open>a\<close> afterwards. The eviction of a
  seed that is not married leaves every seed object as it was.
\<close>

theorem remove_severs_marriage:
  assumes "remove env a w = Inr w'"
  shows "(married (objects w a) \<longrightarrow>
            (\<exists>b. relationSeed (objects w a) = Some b \<and>
                 \<not> married (objects w' a) \<and> \<not> married (objects w' b) \<and>
                 relationSeed (objects w' a) = None \<and> relationSeed (objects w' b) = None \<and>
                 (\<forall>q. q \<noteq> a \<and> q \<noteq> b \<longrightarrow> objects w' q = objects w q) \<and>
                 ((\<forall>q. relationSeed (objects w q) = Some a \<longrightarrow> q = b) \<longrightarrow>
                  (\<forall>q. relationSeed (objects w' q) \<noteq> Some a)))) \<and>
         (\<not> married (objects w a) \<longrightarrow> objects w' = objects w)"
proof -
  let ?w = "w\<lparr>collab := Statistic_seedRemoved env (objects w a) (collab w)\<rparr>"
  from assms obtain w1 where u: "unmarry a ?w = Inr w1"
    and w': "w' = w1\<lparr>Tile_list := (Tile_list w)[tileIndex (objects w a) :=
                 vacate a (Tile_list w ! tileIndex (objects w a))],
            distributedTicks := (distributedTicks w)[tickIndex (objects w a) :=
                 distributedTicks w ! tickIndex (objects w a) - 1]\<rparr>"
    by (rule remove_cases)
  have o: "objects w' = objects w1" by (simp add: w')
  note c = unmarry_cases[OF u, simplified]
  have single: "\<not> married (objects w a) \<longrightarrow> objects w' = objects w"
    using c(2) by (simp add: o)
  have couple: "\<exists>b. relationSeed (objects w a) = Some b \<and>
                 \<not> married (objects w' a) \<and> \<not> married (objects w' b) \<and>
                 relationSeed (objects w' a) = None \<and> relationSeed (objects w' b) = None \<and>
                 (\<forall>q. q \<noteq> a \<and> q \<noteq> b \<longrightarrow> objects w' q = objects w q) \<and>
                 ((\<forall>q. relationSeed (objects w q) = Some a \<longrightarrow> q = b) \<longrightarrow>
                  (\<forall>q. relationSeed (objects w' q) \<noteq> Some a))"
    if m: "married (objects w a)"
  proof -
    from c(3)[OF m] obtain b where b: "relationSeed (objects w a) = Some b"
      and h0: "\<forall>q. objects w1 q =
                  (if q = a \<or> q = b then (objects ?w q)\<lparr>married := False, relationSeed := None\<rparr>
                   else objects ?w q)"
      by (elim exE conjE)
    have h: "objects w1 q =
                  (if q = a \<or> q = b then (objects w q)\<lparr>married := False, relationSeed := None\<rparr>
                   else objects w q)" for q
      using h0[rule_format, of q] by simp
    have 1: "\<not> married (objects w' a)" "\<not> married (objects w' b)"
      "relationSeed (objects w' a) = None" "relationSeed (objects w' b) = None"
      by (simp_all add: o h)
    have 2: "\<forall>q. q \<noteq> a \<and> q \<noteq> b \<longrightarrow> objects w' q = objects w q"
      by (simp add: o h)
    have 3: "(\<forall>q. relationSeed (objects w q) = Some a \<longrightarrow> q = b) \<longrightarrow>
                  (\<forall>q. relationSeed (objects w' q) \<noteq> Some a)"
    proof (intro impI allI)
      fix q assume only: "\<forall>q. relationSeed (objects w q) = Some a \<longrightarrow> q = b"
      show "relationSeed (objects w' q) \<noteq> Some a"
      proof (cases "q = a \<or> q = b")
        case True
        then show ?thesis by (simp add: o h)
      next
        case False
        with only have "relationSeed (objects w q) \<noteq> Some a" by blast
        with False show ?thesis by (simp add: o h)
      qed
    qed
    from b 1 2 3 show ?thesis by blast
  qed
  from single couple show ?thesis by blast
qed

text \<open>
  On the small world: the man of a married couple is evicted, and the woman is left
  unmarried with no partner; the woman of an unmarried pair is evicted.
\<close>

theorem remove_severs_marriage_witness:
  "(\<exists>w'. remove demo_env 0 demo_couple = Inr w' \<and>
      \<not> married (objects w' 0) \<and> \<not> married (objects w' 1) \<and>
      relationSeed (objects w' 0) = None \<and> relationSeed (objects w' 1) = None) \<and>
   (\<exists>w'. remove demo_env 1 demo_two = Inr w' \<and> objects w' = objects demo_two)"
proof -
  obtain w1 where a: "remove demo_env 0 demo_couple = Inr w1"
    using demo_evictions(1) by (cases "remove demo_env 0 demo_couple") simp_all
  from remove_severs_marriage[OF a] demo_evictions(2,3)
  have "\<not> married (objects w1 0) \<and> \<not> married (objects w1 1) \<and>
      relationSeed (objects w1 0) = None \<and> relationSeed (objects w1 1) = None"
    by simp
  with a have 1: "\<exists>w'. remove demo_env 0 demo_couple = Inr w' \<and>
      \<not> married (objects w' 0) \<and> \<not> married (objects w' 1) \<and>
      relationSeed (objects w' 0) = None \<and> relationSeed (objects w' 1) = None"
    by blast
  obtain w2 where b: "remove demo_env 1 demo_two = Inr w2"
    using demo_evictions(6) by (cases "remove demo_env 1 demo_two") simp_all
  from remove_severs_marriage[OF b] demo_evictions(7)
  have "objects w2 = objects demo_two" by simp
  with b have 2: "\<exists>w'. remove demo_env 1 demo_two = Inr w' \<and> objects w' = objects demo_two"
    by blast
  from 1 2 show ?thesis by (rule conjI)
qed

subsection \<open>Admission does not validate its input\<close>





subsection \<open>The frame counters count the live seeds\<close>

lemma sum_list_update_int:
  "k < length xs \<Longrightarrow> sum_list (xs[k := v]) = sum_list xs - xs ! k + (v::int)"
  by (induction xs arbitrary: k) (auto split: nat.splits)

lemma counted_add:
  assumes "add env K dat w = Inr w'" "counted w live"
  shows "counted w' (nextRef w # live)"
proof -
  note f = add_world[OF assms(1)]
  have ne: "distributedTicks w \<noteq> []" by (rule f(13))
  have p: "least_loaded (distributedTicks w) < length (distributedTicks w)"
    by (rule least_loaded_min(1)[OF ne])
  have lt: "\<forall>r\<in>set live. r < nextRef w \<and> tickIndex (objects w r) < length (distributedTicks w)"
    using assms(2) by (simp add: counted_def list_all_iff)
  then have fresh: "nextRef w \<notin> set live" by auto
  have old: "\<forall>r\<in>set live. r < nextRef w' \<and> tickIndex (objects w' r) < length (distributedTicks w')"
  proof
    fix r assume r: "r \<in> set live"
    with lt have "r < nextRef w" "tickIndex (objects w r) < length (distributedTicks w)" by auto
    moreover from this have "objects w' r = objects w r" by (intro f(15)) simp
    ultimately show "r < nextRef w' \<and> tickIndex (objects w' r) < length (distributedTicks w')"
      by (simp add: f(2) f(14))
  qed
  have new: "nextRef w < nextRef w' \<and>
      tickIndex (objects w' (nextRef w)) < length (distributedTicks w')"
    using p by (simp add: f(2) f(14) add_new_seed(9)[OF assms(1)])
  have sum: "sum_list (distributedTicks w') = int (length (nextRef w # live))"
    using assms(2) p by (simp add: f(14) sum_list_update_int counted_def)
  show ?thesis
    using assms(2) fresh old new sum by (simp add: counted_def list_all_iff)
qed

lemma counted_remove:
  assumes "remove env r w = Inr w'" "r \<in> set live" "counted w live"
  shows "counted w' (removeAll r live)"
proof -
  note f = remove_world[OF assms(1)]
  have d: "distinct live" using assms(3) by (simp add: counted_def)
  have len: "int (length (removeAll r live)) = int (length live) - 1"
    using d assms(2) by (simp add: distinct_remove1_removeAll[symmetric] length_remove1)
       (cases live; simp)
  have lt: "\<forall>q\<in>set live. q < nextRef w \<and> tickIndex (objects w q) < length (distributedTicks w)"
    using assms(3) by (simp add: counted_def list_all_iff)
  have sum: "sum_list (distributedTicks w') = int (length live) - 1"
    using assms(3) f(3) by (simp add: f(4) sum_list_update_int counted_def)
  show ?thesis
    using d lt sum len by (simp add: counted_def list_all_iff f(1) f(4) f(5) distinct_removeAll)
qed

lemma lifecycle_counted:
  "lifecycle env ops (w, live) = Some (w', live') \<Longrightarrow> counted w live \<Longrightarrow> counted w' live'"
proof (induction env ops "(w, live)" arbitrary: w live rule: lifecycle.induct)
  case (1 env w live)
  then show ?case by simp
next
  case (2 env K dat ops w live)
  from "2.prems"(1) obtain w1 where a: "add env K dat w = Inr w1"
    and l: "lifecycle env ops (w1, nextRef w # live) = Some (w', live')"
    by (auto split: sum.splits)
  from "2.hyps"[OF a l counted_add[OF a "2.prems"(2)]] show ?case .
next
  case (3 env r ops w live)
  from "3.prems"(1) have r: "r \<in> set live" by (auto split: if_splits)
  with "3.prems"(1) obtain w1 where a: "remove env r w = Inr w1"
    and l: "lifecycle env ops (w1, removeAll r live) = Some (w', live')"
    by (auto split: sum.splits)
  from "3.hyps"[OF r a l counted_remove[OF a r "3.prems"(2)]] show ?case .
qed


lemma demo_ops_eval:
  "case lifecycle demo_env demo_ops (demo_world, []) of
     None \<Rightarrow> False
   | Some (w', live') \<Rightarrow> live' = [2, 1] \<and> take 3 (distributedTicks w') = [1, 1, 0]"
  by code_simp

text \<open>
  Claim C2. After every sequence of admissions and evictions that returns, run from a
  world whose counters count its live seeds (a constructed world with no seed is one),
  the frame counters add up to the number of live seeds. An admission that returns
  increments exactly one counter; an eviction that returns decrements exactly the counter
  at the \<^verbatim>\<open>tickIndex\<close> of the evicted seed.
\<close>

theorem counters_sum_to_population:
  "(lifecycle env ops (w, live) = Some (w', live') \<and> counted w live \<longrightarrow>
      sum_list (distributedTicks w') = int (length live') \<and> counted w' live') \<and>
   counted (WorldJS c tiles cap rnd) [] \<and>
   (\<forall>K dat u u'. add env K dat u = Inr u' \<longrightarrow>
      (\<exists>p<length (distributedTicks u).
         distributedTicks u' = (distributedTicks u)[p := distributedTicks u ! p + 1])) \<and>
   (\<forall>r u u'. remove env r u = Inr u' \<longrightarrow>
      tickIndex (objects u r) < length (distributedTicks u) \<and>
      distributedTicks u' = (distributedTicks u)[tickIndex (objects u r) :=
         distributedTicks u ! tickIndex (objects u r) - 1])"
proof (intro conjI impI allI)
  assume a: "lifecycle env ops (w, live) = Some (w', live') \<and> counted w live"
  then show c: "counted w' live'" using lifecycle_counted by blast
  then show "sum_list (distributedTicks w') = int (length live')" by (simp add: counted_def)
next
  show "counted (WorldJS c tiles cap rnd) []"
    by (simp add: counted_def WorldJS_def sum_list_replicate)
next
  fix K dat u u' assume a: "add env K dat u = Inr u'"
  have "least_loaded (distributedTicks u) < length (distributedTicks u)"
    by (rule least_loaded_min(1)[OF add_world(13)[OF a]])
  with add_world(14)[OF a]
  show "\<exists>p<length (distributedTicks u).
         distributedTicks u' = (distributedTicks u)[p := distributedTicks u ! p + 1]" by blast
next
  fix r u u' assume a: "remove env r u = Inr u'"
  show "tickIndex (objects u r) < length (distributedTicks u)" by (rule remove_world(3)[OF a])
  show "distributedTicks u' = (distributedTicks u)[tickIndex (objects u r) :=
         distributedTicks u ! tickIndex (objects u r) - 1]" by (rule remove_world(4)[OF a])
qed

text \<open>
  On the small world: two admissions, the eviction of the first seed and a third
  admission leave seeds 2 and 1 alive and counters that add up to 2.
\<close>

theorem counters_sum_to_population_witness:
  "\<exists>w' live'. lifecycle demo_env demo_ops (demo_world, []) = Some (w', live') \<and>
      live' = [2, 1] \<and> sum_list (distributedTicks w') = 2"
proof -
  obtain w' live' where l: "lifecycle demo_env demo_ops (demo_world, []) = Some (w', live')"
    and v: "live' = [2, 1]"
    using demo_ops_eval by (cases "lifecycle demo_env demo_ops (demo_world, [])") auto
  have c: "counted demo_world []"
    by (simp add: counted_def demo_world_def WorldJS_def sum_list_replicate)
  from conjunct1[OF counters_sum_to_population[of demo_env demo_ops demo_world "[]" w' live']] l c
  have "sum_list (distributedTicks w') = int (length live')" by simp
  with l v show ?thesis by simp
qed

subsection \<open>One pass over the tiles\<close>

lemma draw_seed_frame:
  "ticked (draw_seed env cap r p) = ticked p"
  "stats (draw_seed env cap r p) = stats p"
  "objects (pworld (draw_seed env cap r p)) = objects (pworld p)"
  "tickMod (pworld (draw_seed env cap r p)) = tickMod (pworld p)"
  "running (pworld (draw_seed env cap r p)) = running (pworld p)"
  "stopCallback (pworld (draw_seed env cap r p)) = stopCallback (pworld p)"
  "Tile_list (pworld (draw_seed env cap r p)) = Tile_list (pworld p)"
  by (simp_all add: draw_seed_def Let_def)

lemma count_seed_population: "sPopulation (count_seed s a) = sPopulation a + 1"
  by (simp add: count_seed_def Let_def)

lemma stamp_seed_frame:
  "ticked (stamp_seed env yp rd cap r p) = ticked p"
  "tickMod (pworld (stamp_seed env yp rd cap r p)) = tickMod (pworld p)"
  "running (pworld (stamp_seed env yp rd cap r p)) = running (pworld p)"
  "stopCallback (pworld (stamp_seed env yp rd cap r p)) = stopCallback (pworld p)"
  "Tile_list (pworld (stamp_seed env yp rd cap r p)) = Tile_list (pworld p)"
  "seed_tickMod (objects (pworld (stamp_seed env yp rd cap r p)) q) =
     (if q = r then tickMod (pworld p) else seed_tickMod (objects (pworld p) q))"
  "sPopulation (stats (stamp_seed env yp rd cap r p)) =
     (if yp then sPopulation (stats p) + 1 else sPopulation (stats p))"
  by (simp_all add: stamp_seed_def Let_def draw_seed_frame count_seed_population)

lemma retile_frame:
  assumes "retile env old r w = Inr w'"
  shows "tickMod w' = tickMod w" "running w' = running w" "stopCallback w' = stopCallback w"
    "seed_tickMod (objects w' q) = seed_tickMod (objects w q)"
  using assms
  by (auto simp: retile_def Let_def Tile_rem_def Tile_set_def split: if_splits sum.splits)

lemma visit_cases:
  assumes "visit env yp rd cap spd i j p = Inr p'"
  obtains (skip) "p' = p"
  | (tick) r w2 where "slot_at (Tile_list (pworld p)) i j = Some r"
      "seed_tickMod (objects (pworld p) r) \<noteq> tickMod (pworld p)"
      "retile env (tileIndex (objects (pworld p) r)) r
         (Seed_tick env r spd (pworld (stamp_seed env yp rd cap r p))) = Inr w2"
      "p' = (stamp_seed env yp rd cap r p)\<lparr>ticked := r # ticked p, pworld := w2\<rparr>"
proof (cases "slot_at (Tile_list (pworld p)) i j")
  case None
  with assms have "p' = p" by (simp add: visit_def)
  then show ?thesis by (rule skip)
next
  case (Some r)
  show ?thesis
  proof (cases "seed_tickMod (objects (pworld p) r) = tickMod (pworld p)")
    case True
    with Some assms have "p' = p" by (simp add: visit_def Let_def)
    then show ?thesis by (rule skip)
  next
    case False
    let ?p1 = "stamp_seed env yp rd cap r p"
    from assms Some False obtain w2 where
      r: "retile env (tileIndex (objects (pworld p) r)) r (Seed_tick env r spd (pworld ?p1)) = Inr w2"
      and p': "p' = ?p1\<lparr>ticked := r # ticked ?p1, pworld := w2\<rparr>"
      by (auto simp: visit_def Let_def split: sum.splits)
    from p' have "p' = ?p1\<lparr>ticked := r # ticked p, pworld := w2\<rparr>"
      by (simp add: stamp_seed_frame)
    with Some False r show ?thesis by (rule tick)
  qed
qed

text \<open>A pass counts a seed for each behaviour it invokes, and changes nothing otherwise.\<close>

lemma visit_counts:
  assumes "visit env yp rd cap spd i j p = Inr p'"
  shows "length (ticked p) \<le> length (ticked p') \<and>
         (yp \<longrightarrow> sPopulation (stats p') - int (length (ticked p')) =
                 sPopulation (stats p) - int (length (ticked p))) \<and>
         (length (ticked p') = length (ticked p) \<longrightarrow> p' = p)"
  using assms
proof (cases rule: visit_cases)
  case skip
  then show ?thesis by simp
next
  case (tick r w2)
  then show ?thesis by (simp add: stamp_seed_frame)
qed

lemma run_slots_counts:
  "run_slots env yp rd cap spd i js p = Inr p' \<Longrightarrow>
     length (ticked p) \<le> length (ticked p') \<and>
     (yp \<longrightarrow> sPopulation (stats p') - int (length (ticked p')) =
             sPopulation (stats p) - int (length (ticked p))) \<and>
     (length (ticked p') = length (ticked p) \<longrightarrow> p' = p)"
proof (induction js arbitrary: p)
  case Nil
  then show ?case by simp
next
  case (Cons j js)
  from Cons.prems obtain p1 where v: "visit env yp rd cap spd i j p = Inr p1"
    and s: "run_slots env yp rd cap spd i js p1 = Inr p'"
    by (auto split: sum.splits)
  from visit_counts[OF v] Cons.IH[OF s] show ?case by auto
qed

lemma run_tiles_counts:
  "run_tiles env yp rd cap spd is p = Inr p' \<Longrightarrow>
     length (ticked p) \<le> length (ticked p') \<and>
     (yp \<longrightarrow> sPopulation (stats p') - int (length (ticked p')) =
             sPopulation (stats p) - int (length (ticked p))) \<and>
     (length (ticked p') = length (ticked p) \<longrightarrow>
        pworld p' = pworld p \<and> stats p' = stats p \<and> ticked p' = ticked p)"
proof (induction "is" arbitrary: p)
  case Nil
  then show ?case by simp
next
  case (Cons i "is")
  let ?p0 = "p\<lparr>displayedSeeds := 0\<rparr>"
  from Cons.prems obtain p1 where
    v: "run_slots env yp rd cap spd i [0..<length (Tile_list (pworld p) ! i)] ?p0 = Inr p1"
    and s: "run_tiles env yp rd cap spd is p1 = Inr p'"
    by (auto split: sum.splits if_splits)
  from run_slots_counts[OF v] Cons.IH[OF s] show ?case by auto
qed

lemma demo_year_end_eval:
  "tickMod demo_year_end = 59" "running demo_year_end" "stopCallback demo_year_end = Noop"
  "Tile_list demo_year_end = [[], []]"
  by code_simp+


subsection \<open>One call of \<^verbatim>\<open>run\<close>\<close>

lemma run_cases:
  assumes "run env w = Inr res"
  obtains yp p where "run_traverse env w = Inr (yp, p)" "res = run_finish env yp p"
  using assms by (auto simp: run_def split: sum.splits)

lemma run_traverse_cases:
  assumes "run_traverse env w = Inr (yp, p)"
  obtains t rd p0 where
    "js_rem (tickMod w + 1) (tickPerYear w) = Some t" "yp = (t = 0)"
    "run_tiles env yp rd (Tile_maxDisplayedSeeds w) (speed w) [0..<length (Tile_list w)] p0 = Inr p"
    "ticked p0 = []" "stats p0 = no_stats"
    "tickMod (pworld p0) = t" "objects (pworld p0) = objects w"
    "running (pworld p0) = running w" "stopCallback (pworld p0) = stopCallback w"
    "Tile_list (pworld p0) = Tile_list w"
proof -
  from assms obtain t where t: "js_rem (tickMod w + 1) (tickPerYear w) = Some t"
    by (auto simp: run_traverse_def split: option.splits)
  let ?rd = "Statistic_population env (collab w) \<le> maxSafeSeedsForDisplay w \<or> t = 0"
  let ?w1 = "if ?rd then w\<lparr>tickMod := t,
                collab := context_clearRect env (width w) (height w) (collab w)\<rparr>
             else w\<lparr>tickMod := t\<rparr>"
  let ?p0 = "\<lparr>pworld = ?w1, stats = no_stats, displayedSeeds = 0, ticked = []\<rparr>"
  from assms t have yp: "yp = (t = 0)"
    and r: "run_tiles env yp ?rd (Tile_maxDisplayedSeeds w) (speed w) [0..<length (Tile_list w)] ?p0 = Inr p"
    by (auto simp: run_traverse_def Let_def split: sum.splits if_splits)
  show ?thesis
    by (rule that[OF t yp r]) simp_all
qed

lemma run_finish_simps:
  "year_passed (run_finish env yp p) = yp"
  "year_stats (run_finish env yp p) = stats p"
  "ticked_seeds (run_finish env yp p) = rev (ticked p)"
  by (simp_all add: run_finish_def Let_def split: prod.splits)

lemma run_finish_extinct:
  assumes "yp" "sPopulation (stats p) = 0"
  shows "called (run_finish env yp p) = None" "\<not> frame_requested (run_finish env yp p)"
    "\<not> running (world_after (run_finish env yp p))"
    "stopCallback (world_after (run_finish env yp p)) = stopCallback (pworld p)"
  using assms by (simp_all add: run_finish_def Let_def)



text \<open>
  Claim C10. When a call of \<^verbatim>\<open>run\<close> is a year boundary that counted no seed, it
  leaves \<^verbatim>\<open>running\<close> false, requests no frame, calls no stop callback and leaves the
  stored stop callback as it was before the call; it invoked no behaviour.
\<close>

theorem run_extinction_skips_callback:
  assumes "run env w = Inr res" "year_passed res" "sPopulation (year_stats res) = 0"
  shows "\<not> running (world_after res) \<and> \<not> frame_requested res \<and> called res = None \<and>
         stopCallback (world_after res) = stopCallback w \<and> ticked_seeds res = []"
proof -
  from assms(1) obtain yp p where tr: "run_traverse env w = Inr (yp, p)"
    and res: "res = run_finish env yp p"
    by (rule run_cases)
  from assms(2,3) have yp: "yp" and z: "sPopulation (stats p) = 0"
    by (simp_all add: res run_finish_simps)
  from tr obtain t rd p0 where
    r: "run_tiles env yp rd (Tile_maxDisplayedSeeds w) (speed w) [0..<length (Tile_list w)] p0 = Inr p"
    and p0: "ticked p0 = []" "stats p0 = no_stats" "stopCallback (pworld p0) = stopCallback w"
    by (rule run_traverse_cases)
  from run_tiles_counts[OF r] yp z p0
  have n: "ticked p = []" by (simp add: no_stats_def)
  with run_tiles_counts[OF r] p0 have "pworld p = pworld p0" by simp
  with p0 have "stopCallback (pworld p) = stopCallback w" by simp
  with run_finish_extinct[OF yp z, of env] n show ?thesis
    by (simp add: res run_finish_simps)
qed

text \<open>
  On the small world at the end of a year without seeds, with a stop callback registered:
  the callback is still stored after the call.
\<close>

theorem run_extinction_skips_callback_witness:
  "\<exists>res. run demo_env (stop (Some (Fn 5)) demo_year_end) = Inr res \<and>
      year_passed res \<and> sPopulation (year_stats res) = 0 \<and>
      \<not> running (world_after res) \<and> called res = None \<and>
      stopCallback (world_after res) = Fn 5"
proof -
  have e: "case run demo_env (stop (Some (Fn 5)) demo_year_end) of
     Inl e \<Rightarrow> False
   | Inr res \<Rightarrow> year_passed res \<and> sPopulation (year_stats res) = 0"
    by code_simp
  then obtain res where a: "run demo_env (stop (Some (Fn 5)) demo_year_end) = Inr res"
    and y: "year_passed res" "sPopulation (year_stats res) = 0"
    by (cases "run demo_env (stop (Some (Fn 5)) demo_year_end)") simp_all
  from run_extinction_skips_callback[OF a y]
  have "\<not> running (world_after res) \<and> called res = None \<and>
      stopCallback (world_after res) = Fn 5"
    by (simp add: stop_def)
  with a y show ?thesis by blast
qed













subsection \<open>No seed is ticked twice in a pass\<close>

lemma visit_stamps:
  assumes H: "tick_keeps_stamps env" and v: "visit env yp rd cap spd i j p = Inr p'"
    and inv: "stamped_pass S p"
  shows "stamped_pass S p' \<and> tickMod (pworld p') = tickMod (pworld p)"
  using v
proof (cases rule: visit_cases)
  case skip
  with inv show ?thesis by simp
next
  case (tick r w2)
  let ?T = "tickMod (pworld p)"
  let ?p1 = "stamp_seed env yp rd cap r p"
  let ?w1 = "pworld ?p1"
  let ?wT = "Seed_tick env r spd ?w1"
  have T1: "tickMod ?w1 = ?T" by (simp add: stamp_seed_frame)
  have s1: "seed_tickMod (objects ?w1 q) = (if q = r then ?T else seed_tickMod (objects (pworld p) q))" for q
    by (simp add: stamp_seed_frame)
  have r1: "seed_tickMod (objects ?w1 r) = tickMod ?w1" by (simp add: s1 T1)
  from H have "seed_tickMod (objects ?w1 r) = tickMod ?w1 \<longrightarrow>
        tickMod ?wT = tickMod ?w1 \<and>
        (\<forall>q. seed_tickMod (objects ?w1 q) = tickMod ?w1 \<longrightarrow>
             seed_tickMod (objects ?wT q) = tickMod ?w1)"
    unfolding tick_keeps_stamps_def by (elim allE)
  with r1 have h: "tickMod ?wT = tickMod ?w1"
    "\<forall>q. seed_tickMod (objects ?w1 q) = tickMod ?w1 \<longrightarrow>
             seed_tickMod (objects ?wT q) = tickMod ?w1"
    by simp_all
  have TT: "tickMod ?wT = ?T" using h(1) T1 by simp
  have keep: "seed_tickMod (objects ?wT q) = ?T" if "seed_tickMod (objects ?w1 q) = ?T" for q
    using h(2)[rule_format, of q] that T1 by simp
  note rf = retile_frame[OF tick(3)]
  have T2: "tickMod w2 = ?T" by (simp add: rf TT)
  have s2: "seed_tickMod (objects w2 q) = ?T"
    if "q = r \<or> seed_tickMod (objects (pworld p) q) = ?T" for q
    using that keep[of q] by (auto simp: rf s1)
  have nr: "r \<notin> set (ticked p)" "r \<notin> S"
    using inv tick(2) by (auto simp: stamped_pass_def)
  have w': "pworld p' = w2" "ticked p' = r # ticked p" by (simp_all add: tick(4))
  have "stamped_pass S p'"
    unfolding stamped_pass_def w' T2
    using inv nr s2 by (auto simp: stamped_pass_def)
  then show ?thesis by (simp add: w' T2)
qed

lemma run_slots_stamps:
  "tick_keeps_stamps env \<Longrightarrow> run_slots env yp rd cap spd i js p = Inr p' \<Longrightarrow>
   stamped_pass S p \<Longrightarrow>
   stamped_pass S p' \<and> tickMod (pworld p') = tickMod (pworld p)"
proof (induction js arbitrary: p)
  case Nil
  then show ?case by simp
next
  case (Cons j js)
  from Cons.prems(2) obtain p1 where v: "visit env yp rd cap spd i j p = Inr p1"
    and s: "run_slots env yp rd cap spd i js p1 = Inr p'"
    by (auto split: sum.splits)
  from visit_stamps[OF Cons.prems(1) v Cons.prems(3)]
  have 1: "stamped_pass S p1" "tickMod (pworld p1) = tickMod (pworld p)" by simp_all
  from Cons.IH[OF Cons.prems(1) s 1(1)] 1(2) show ?case by simp
qed

lemma run_tiles_stamps:
  "tick_keeps_stamps env \<Longrightarrow> run_tiles env yp rd cap spd is p = Inr p' \<Longrightarrow>
   stamped_pass S p \<Longrightarrow>
   stamped_pass S p' \<and> tickMod (pworld p') = tickMod (pworld p)"
proof (induction "is" arbitrary: p)
  case Nil
  then show ?case by simp
next
  case (Cons i "is")
  let ?p0 = "p\<lparr>displayedSeeds := 0\<rparr>"
  from Cons.prems(2) obtain p1 where
    v: "run_slots env yp rd cap spd i [0..<length (Tile_list (pworld p) ! i)] ?p0 = Inr p1"
    and s: "run_tiles env yp rd cap spd is p1 = Inr p'"
    by (auto split: sum.splits if_splits)
  have "stamped_pass S ?p0" using Cons.prems(3) by (simp add: stamped_pass_def)
  from run_slots_stamps[OF Cons.prems(1) v this]
  have 1: "stamped_pass S p1" "tickMod (pworld p1) = tickMod (pworld p)" by simp_all
  from Cons.IH[OF Cons.prems(1) s 1(1)] 1(2) show ?case by simp
qed

lemma demo_keeps_stamps: "tick_keeps_stamps demo_env"
  by (simp add: tick_keeps_stamps_def demo_env_def)

lemma demo_pass_eval:
  "case run demo_env (demo_two\<lparr>running := True\<rparr>) of
     Inl e \<Rightarrow> False
   | Inr res \<Rightarrow> ticked_seeds res = [0, 1] \<and>
       Tile_list (demo_two\<lparr>running := True\<rparr>) = [[Some 0, Some 1], []] \<and>
       Tile_list (world_after res) = [[None, None], [Some 0, Some 1]]"
  by code_simp

text \<open>
  Claim C1. Let the seed behaviours leave the tick counter and the current stamps alone
  (\<open>tick_keeps_stamps\<close>). In a call of \<^verbatim>\<open>run\<close> that returns, no seed has its \<^verbatim>\<open>tick\<close>
  invoked twice; every seed whose \<^verbatim>\<open>tick\<close> was invoked carries the current counter as
  its stamp when the traversal ends; and a seed that already carried it when the call
  began was passed over, wherever in the tiles its reference was met.
\<close>

theorem run_ticks_each_seed_once:
  assumes "tick_keeps_stamps env" "run env w = Inr res"
  shows "distinct (ticked_seeds res) \<and>
         (\<exists>yp p t. run_traverse env w = Inr (yp, p) \<and> ticked_seeds res = rev (ticked p) \<and>
            js_rem (tickMod w + 1) (tickPerYear w) = Some t \<and> tickMod (pworld p) = t \<and>
            (\<forall>r\<in>set (ticked p). seed_tickMod (objects (pworld p) r) = t) \<and>
            (\<forall>q. seed_tickMod (objects w q) = t \<longrightarrow> q \<notin> set (ticked p)))"
proof -
  from assms(2) obtain yp p where tr: "run_traverse env w = Inr (yp, p)"
    and res: "res = run_finish env yp p"
    by (rule run_cases)
  from tr obtain t rd p0 where
    t: "js_rem (tickMod w + 1) (tickPerYear w) = Some t"
    and r: "run_tiles env yp rd (Tile_maxDisplayedSeeds w) (speed w) [0..<length (Tile_list w)] p0 = Inr p"
    and p0: "ticked p0 = []" "tickMod (pworld p0) = t" "objects (pworld p0) = objects w"
    by (rule run_traverse_cases)
  let ?S = "{q. seed_tickMod (objects w q) = t}"
  have "stamped_pass ?S p0" by (simp add: stamped_pass_def p0)
  from run_tiles_stamps[OF assms(1) r this]
  have inv: "stamped_pass ?S p" and T: "tickMod (pworld p) = t" by (simp_all add: p0)
  have 1: "distinct (ticked_seeds res)"
    using inv by (simp add: res run_finish_simps stamped_pass_def)
  have 2: "\<forall>r\<in>set (ticked p). seed_tickMod (objects (pworld p) r) = t"
    using inv T by (simp add: stamped_pass_def)
  have 3: "\<forall>q. seed_tickMod (objects w q) = t \<longrightarrow> q \<notin> set (ticked p)"
    using inv by (simp add: stamped_pass_def)
  have 4: "ticked_seeds res = rev (ticked p)" by (simp add: res run_finish_simps)
  from 1 tr 4 t T 2 3 show ?thesis by blast
qed

text \<open>
  On the small world: both seeds of the first tile walk into the second tile during the
  pass, where their references are met again and passed over.
\<close>

theorem run_ticks_each_seed_once_witness:
  "tick_keeps_stamps demo_env \<and>
   (\<exists>res. run demo_env (demo_two\<lparr>running := True\<rparr>) = Inr res \<and>
      Tile_list (world_after res) = [[None, None], [Some 0, Some 1]] \<and>
      ticked_seeds res = [0, 1] \<and> distinct (ticked_seeds res))"
proof -
  obtain res where a: "run demo_env (demo_two\<lparr>running := True\<rparr>) = Inr res"
    and e: "ticked_seeds res = [0, 1]"
      "Tile_list (world_after res) = [[None, None], [Some 0, Some 1]]"
    using demo_pass_eval by (cases "run demo_env (demo_two\<lparr>running := True\<rparr>)") simp_all
  from run_ticks_each_seed_once[OF demo_keeps_stamps a]
  have "distinct (ticked_seeds res)" by (rule conjunct1)
  with a e demo_keeps_stamps show ?thesis by blast
qed

subsection \<open>Positions and identities of the seeds admitted\<close>

lemma random_bounds:
  assumes "0 \<le> r" "r < 1" "0 \<le> M"
  shows "0 \<le> random r 0 M" "random r 0 M \<le> M"
proof -
  have p: "0 < (of_int (M + 1) :: real)" using assms(3) by simp
  have lo: "0 \<le> r * of_int (M + 1)" using assms(1) p by simp
  have "r * of_int (M + 1) < 1 * of_int (M + 1)"
    using assms(2) p by (intro mult_strict_right_mono) simp_all
  then have hi: "r * of_int (M + 1) < of_int (M + 1)" by simp
  show "0 \<le> random r 0 M" using lo by (simp add: random_def)
  have "\<lfloor>r * of_int (M + 1)\<rfloor> < M + 1"
    using hi unfolding floor_less_iff[of "r * of_int (M + 1)" "M + 1"] .
  then show "random r 0 M \<le> M" by (simp add: random_def)
qed

lemma in_bounds_cong:
  "width w' = width w \<Longrightarrow> height w' = height w \<Longrightarrow> padding w' = padding w \<Longrightarrow>
   in_bounds w' s = in_bounds w s"
  by (simp add: in_bounds_def split: option.split)

lemma add_in_bounds:
  assumes a: "add env K dat w = Inr w'"
    and d: "0 \<le> draws w (drawn w)" "draws w (drawn w) < 1"
      "0 \<le> draws w (Suc (drawn w))" "draws w (Suc (drawn w)) < 1"
    and u: "seed_x (Seed_new env K dat) = None" "seed_y (Seed_new env K dat) = None"
    and room: "0 \<le> padding w" "0 \<le> appearance_height (Seed_new env K dat)"
      "max (appearance_width (Seed_new env K dat)) (padding w) \<le> width w - 1"
      "appearance_height (Seed_new env K dat) + padding w \<le> height w - 1"
  shows "in_bounds w (objects w' (nextRef w))"
proof -
  let ?s = "objects w' (nextRef w)"
  let ?X = "width w - 1 - max (appearance_width (Seed_new env K dat)) (padding w)"
  let ?Y = "height w - 1 - appearance_height (Seed_new env K dat) - padding w"
  have x: "seed_x ?s = Some (random (draws w (drawn w)) 0 ?X)"
    using add_new_seed(11)[OF a] u by simp
  have y: "seed_y ?s = Some (random (draws w (Suc (drawn w))) 0 ?Y)"
    using add_new_seed(12)[OF a] u by simp
  have X: "0 \<le> ?X" and Y: "0 \<le> ?Y" using room by simp_all
  note bx = random_bounds[OF d(1,2) X]
  note by' = random_bounds[OF d(3,4) Y]
  show ?thesis
    using bx by' room
    by (simp add: in_bounds_def x y add_new_seed(5,6)[OF a])
qed

lemma border_data_none: "fb \<le> 0 \<Longrightarrow> border_data fb dat w = (dat, w)"
  by (simp add: border_data_def)

lemma add_people_props:
  assumes U: "unit_draws rnd" and P: "unforced_people env tpy" and fb: "fb \<le> 0"
  shows "add_people env count mn mx fb tpy is w = Inr w' \<Longrightarrow> draws w = rnd \<Longrightarrow>
     tickPerYear w = tpy \<Longrightarrow> room_for_people env w \<Longrightarrow>
     nextRef w' = nextRef w + length is \<and>
     nextSeedId w' = nextSeedId w + int (length is) \<and>
     sum_list (distributedTicks w') = sum_list (distributedTicks w) + int (length is) \<and>
     (\<forall>q<nextRef w. objects w' q = objects w q) \<and>
     (\<forall>k<length is. in_bounds w (objects w' (nextRef w + k)) \<and>
                     seed_id (objects w' (nextRef w + k)) = nextSeedId w + int k)"
proof (induction "is" arbitrary: w)
  case Nil
  then show ?case by simp
next
  case (Cons i "is")
  let ?w0 = "w\<lparr>drawn := Suc (drawn w)\<rparr>"
  let ?a = "random (draws w (drawn w)) mn mx"
  let ?dat = "person ?a tpy"
  let ?K = "if 2 * int i < count then Male else Female"
  from Cons.prems(1) obtain w1 where a: "add env ?K ?dat ?w0 = Inr w1"
    and rest: "add_people env count mn mx fb tpy is w1 = Inr w'"
    by (auto simp: Math_random_def Let_def person_def border_data_none[OF fb] split: sum.splits)
  note f = add_world[OF a, simplified]
  have dr: "\<And>n. 0 \<le> draws w n \<and> draws w n < 1"
    using U Cons.prems(2) by (simp add: unit_draws_def)
  have room: "0 \<le> padding w" "0 \<le> appearance_height (Seed_new env ?K ?dat)"
      "max (appearance_width (Seed_new env ?K ?dat)) (padding w) \<le> width w - 1"
      "appearance_height (Seed_new env ?K ?dat) + padding w \<le> height w - 1"
    using Cons.prems(3,4) by (simp_all add: room_for_people_def)
  have un: "seed_x (Seed_new env ?K ?dat) = None" "seed_y (Seed_new env ?K ?dat) = None"
    using P by (simp_all add: unforced_people_def)
  have "in_bounds ?w0 (objects w1 (nextRef ?w0))"
    by (rule add_in_bounds[OF a]) (use dr room un in simp_all)
  then have b0: "in_bounds w (objects w1 (nextRef w))"
    by (simp add: in_bounds_cong[of ?w0 w])
  have id0: "seed_id (objects w1 (nextRef w)) = nextSeedId w"
    using add_new_seed(2)[OF a] by simp
  have d1: "draws w1 = rnd" using f(8) Cons.prems(2) by simp
  have t1: "tickPerYear w1 = tpy" using f(4) Cons.prems(3) by simp
  have r1: "room_for_people env w1"
    using Cons.prems(4) f by (simp add: room_for_people_def)
  note ih = Cons.IH[OF rest d1 t1 r1]
  have n1: "nextRef w1 = Suc (nextRef w)" "nextSeedId w1 = nextSeedId w + 1" using f by simp_all
  have p: "least_loaded (distributedTicks w) < length (distributedTicks w)"
    using least_loaded_min(1) f(13) by blast
  have s1: "sum_list (distributedTicks w1) = sum_list (distributedTicks w) + 1"
    using p by (simp add: f(14) sum_list_update_int)
  have old: "\<forall>q<nextRef w. objects w' q = objects w q"
  proof (intro allI impI)
    fix q assume q: "q < nextRef w"
    then have "objects w' q = objects w1 q" using ih n1 by simp
    also have "objects w1 q = objects w q" using f(15)[of q] q by simp
    finally show "objects w' q = objects w q" .
  qed
  have first: "objects w' (nextRef w) = objects w1 (nextRef w)" using ih n1 by simp
  have each: "in_bounds w (objects w' (nextRef w + k)) \<and>
       seed_id (objects w' (nextRef w + k)) = nextSeedId w + int k" if "k < length (i # is)" for k
  proof (cases k)
    case 0
    then show ?thesis using b0 id0 first by simp
  next
    case (Suc k')
    with that have "k' < length is" by simp
    with ih have "in_bounds w1 (objects w' (nextRef w1 + k')) \<and>
                     seed_id (objects w' (nextRef w1 + k')) = nextSeedId w1 + int k'" by blast
    moreover have "in_bounds w1 s = in_bounds w s" for s
      by (rule in_bounds_cong) (simp_all add: f)
    ultimately show ?thesis using Suc n1 by simp
  qed
  from ih n1 s1 old each show ?case by simp
qed

lemma remove_seed_id:
  assumes "remove env r w = Inr w'"
  shows "seed_id (objects w' q) = seed_id (objects w q)"
proof -
  let ?w = "w\<lparr>collab := Statistic_seedRemoved env (objects w r) (collab w)\<rparr>"
  from assms obtain w1 where u: "unmarry r ?w = Inr w1"
    and w': "w' = w1\<lparr>Tile_list := (Tile_list w)[tileIndex (objects w r) :=
                 vacate r (Tile_list w ! tileIndex (objects w r))],
            distributedTicks := (distributedTicks w)[tickIndex (objects w r) :=
                 distributedTicks w ! tickIndex (objects w r) - 1]\<rparr>"
    by (rule remove_cases)
  note c = unmarry_cases[OF u]
  have "seed_id (objects w1 q) = seed_id (objects w q)"
  proof (cases "married (objects ?w r)")
    case False
    from c(2)[OF False] show ?thesis by simp
  next
    case True
    from c(3)[OF True] obtain b where
      "objects w1 q = (if q = r \<or> q = b
         then (objects ?w q)\<lparr>married := False, relationSeed := None\<rparr> else objects ?w q)"
      by blast
    then show ?thesis by simp
  qed
  then show ?thesis by (simp add: w')
qed

lemma add_people_returns:
  assumes ai: "\<forall>K d. actionInterval (Seed_new env K d) \<noteq> 0"
    and ti: "\<forall>s. Tile_getIndex env s < n" and fb: "fb \<le> 0"
  shows "length (Tile_list w) = n \<Longrightarrow> distributedTicks w \<noteq> [] \<Longrightarrow>
     \<exists>w'. add_people env count mn mx fb tpy is w = Inr w'"
proof (induction "is" arbitrary: w)
  case Nil
  then show ?case by simp
next
  case (Cons i "is")
  let ?w0 = "w\<lparr>drawn := Suc (drawn w)\<rparr>"
  let ?a = "random (draws w (drawn w)) mn mx"
  let ?dat = "\<lparr>data_age = Some ?a, data_tickCount = Some (?a * tpy), data_x = None, data_y = None\<rparr>"
  let ?K = "if 2 * int i < count then Male else Female"
  have "tileIndex (fst (admit_seed env ?K ?dat ?w0)) \<in> range (Tile_getIndex env)"
    by (rule admit_seed_fields)
  then have t: "tileIndex (fst (admit_seed env ?K ?dat ?w0)) < length (Tile_list ?w0)"
    using ti Cons.prems(1) by auto
  have "\<exists>w1. add env ?K ?dat ?w0 = Inr w1"
    by (rule add_returns[OF _ _ t]) (use ai Cons.prems(2) in simp_all)
  then obtain w1 where a: "add env ?K ?dat ?w0 = Inr w1" ..
  note f = add_world[OF a, simplified]
  have "length (Tile_list w1) = n" "distributedTicks w1 \<noteq> []"
    using f Cons.prems by auto
  from Cons.IH[OF this] obtain w' where "add_people env count mn mx fb tpy is w1 = Inr w'" ..
  with a show ?case
    by (simp add: Math_random_def Let_def border_data_none[OF fb])
qed

lemma demo_arena_eval:
  "\<not> isl (addRandomPeople demo_env 10 None None None demo_arena)"
  "nextRef demo_arena = 0" "nextSeedId demo_arena = 1"
proof -
  have "\<exists>w'. add_people demo_env 10 15 20 0 (tickPerYear demo_arena) [0..<nat 10] demo_arena = Inr w'"
    by (rule add_people_returns[where n = 2])
       (simp_all add: demo_env_def demo_seed_def demo_index_def demo_arena_def WorldJS_def
          split: option.split)
  then show "\<not> isl (addRandomPeople demo_env 10 None None None demo_arena)"
    by (auto simp: addRandomPeople_def)
  show "nextRef demo_arena = 0" "nextSeedId demo_arena = 1"
    by (simp_all add: demo_arena_def WorldJS_def)
qed

lemma demo_arena_ok:
  "unit_draws (draws demo_arena)" "unforced_people demo_env (tickPerYear demo_arena)"
  "room_for_people demo_env demo_arena"
proof -
  have "0 \<le> demo_draws n \<and> demo_draws n < 1" for n
  proof -
    have "n mod 7 < 7" by simp
    then have "real (n mod 7) < 7" by (metis of_nat_less_iff of_nat_numeral)
    then show ?thesis by (simp add: demo_draws_def)
  qed
  then show "unit_draws (draws demo_arena)"
    by (simp add: unit_draws_def demo_arena_def WorldJS_def)
  show "unforced_people demo_env (tickPerYear demo_arena)"
    by (simp add: unforced_people_def person_def demo_env_def demo_seed_def)
  show "room_for_people demo_env demo_arena"
    by (simp add: room_for_people_def safe_integer_def demo_env_def demo_seed_def demo_arena_def
        WorldJS_def)
qed

text \<open>
  Claim C8. An admission that returns, of a seed whose coordinates are not forced, with
  draws in \<open>[0, 1)\<close> and a world of safe-integer size that has room for the footprint
  inside the padding, places the seed in bounds (\<open>in_bounds\<close>). An admission that returns gives the seed the
  identity counter as identity, positive and above the identity of every object allocated
  before, and keeps \<open>identities_below\<close>, as an eviction does; a constructed world has it.
  \<^verbatim>\<open>addRandomPeople(count)\<close> with no border, when it returns, with people whose
  coordinates are not forced and whose footprint has room, and identities that stay safe
  integers, has admitted \<open>count\<close> seeds, all in bounds, with the identities
  \<open>nextSeedId, nextSeedId + 1, ...\<close>, positive and distinct, and the frame counters have
  grown by \<open>count\<close> in sum. (The draws are reals
  here; the bounds do not depend on how the product is rounded.)
\<close>

theorem admission_places_and_identifies:
  "(add env K dat w = Inr w1 \<and>
      0 \<le> draws w (drawn w) \<and> draws w (drawn w) < 1 \<and>
      0 \<le> draws w (Suc (drawn w)) \<and> draws w (Suc (drawn w)) < 1 \<and>
      seed_x (Seed_new env K dat) = None \<and> seed_y (Seed_new env K dat) = None \<and>
      0 \<le> padding w \<and> safe_integer (width w) \<and> safe_integer (height w) \<and>
      0 \<le> appearance_height (Seed_new env K dat) \<and>
      max (appearance_width (Seed_new env K dat)) (padding w) \<le> width w - 1 \<and>
      appearance_height (Seed_new env K dat) + padding w \<le> height w - 1
    \<longrightarrow> in_bounds w (objects w1 (nextRef w))) \<and>
   (add env K dat w = Inr w1 \<and> identities_below w \<and> safe_integer (nextSeedId w + 1) \<longrightarrow>
      seed_id (objects w1 (nextRef w)) = nextSeedId w \<and>
      0 < seed_id (objects w1 (nextRef w)) \<and>
      (\<forall>r<nextRef w. seed_id (objects w1 r) < seed_id (objects w1 (nextRef w))) \<and>
      identities_below w1) \<and>
   (remove env r w = Inr w2 \<and> identities_below w \<longrightarrow> identities_below w2) \<and>
   identities_below (WorldJS c tiles cap rnd) \<and>
   (addRandomPeople env count minAge maxAge None w = Inr w3 \<and>
      unit_draws (draws w) \<and> unforced_people env (tickPerYear w) \<and> room_for_people env w \<and>
      0 < nextSeedId w \<and> safe_integer (nextSeedId w + int (nat count)) \<longrightarrow>
      nextRef w3 = nextRef w + nat count \<and>
      sum_list (distributedTicks w3) = sum_list (distributedTicks w) + int (nat count) \<and>
      (\<forall>k<nat count. in_bounds w (objects w3 (nextRef w + k)) \<and>
                      seed_id (objects w3 (nextRef w + k)) = nextSeedId w + int k \<and>
                      0 < seed_id (objects w3 (nextRef w + k))) \<and>
      distinct (map (\<lambda>k. seed_id (objects w3 (nextRef w + k))) [0..<nat count]))"
proof (intro conjI impI)
  assume "add env K dat w = Inr w1 \<and>
      0 \<le> draws w (drawn w) \<and> draws w (drawn w) < 1 \<and>
      0 \<le> draws w (Suc (drawn w)) \<and> draws w (Suc (drawn w)) < 1 \<and>
      seed_x (Seed_new env K dat) = None \<and> seed_y (Seed_new env K dat) = None \<and>
      0 \<le> padding w \<and> safe_integer (width w) \<and> safe_integer (height w) \<and>
      0 \<le> appearance_height (Seed_new env K dat) \<and>
      max (appearance_width (Seed_new env K dat)) (padding w) \<le> width w - 1 \<and>
      appearance_height (Seed_new env K dat) + padding w \<le> height w - 1"
  then show "in_bounds w (objects w1 (nextRef w))"
    by (intro add_in_bounds[of env K dat w w1]) simp_all
next
  assume h: "add env K dat w = Inr w1 \<and> identities_below w \<and> safe_integer (nextSeedId w + 1)"
  then have a: "add env K dat w = Inr w1" and ib: "0 < nextSeedId w"
    "\<forall>r<nextRef w. seed_id (objects w r) < nextSeedId w"
    by (simp_all add: identities_below_def list_all_iff)
  note f = add_world[OF a]
  show id: "seed_id (objects w1 (nextRef w)) = nextSeedId w" by (rule add_new_seed(2)[OF a])
  show "0 < seed_id (objects w1 (nextRef w))" using ib id by simp
  show old: "\<forall>r<nextRef w. seed_id (objects w1 r) < seed_id (objects w1 (nextRef w))"
    using ib(2) f(15) by (simp add: id)
  show "identities_below w1"
    unfolding identities_below_def list_all_iff
  proof (intro conjI ballI)
    show "0 < nextSeedId w1" using ib f by simp
    fix q assume "q \<in> set [0..<nextRef w1]"
    then have "q < nextRef w \<or> q = nextRef w" using f by auto
    then show "seed_id (objects w1 q) < nextSeedId w1"
      using old id f(1) by auto
  qed
next
  assume h: "remove env r w = Inr w2 \<and> identities_below w"
  then have a: "remove env r w = Inr w2" by simp
  from h show "identities_below w2"
    by (simp add: identities_below_def remove_world(1,2)[OF a] remove_seed_id[OF a])
next
  show "identities_below (WorldJS c tiles cap rnd)"
    by (simp add: identities_below_def WorldJS_def)
next
  assume h: "addRandomPeople env count minAge maxAge None w = Inr w3 \<and>
      unit_draws (draws w) \<and> unforced_people env (tickPerYear w) \<and> room_for_people env w \<and>
      0 < nextSeedId w \<and> safe_integer (nextSeedId w + int (nat count))"
  then have a: "add_people env count (case minAge of None \<Rightarrow> 15 | Some a \<Rightarrow> a)
       (case maxAge of None \<Rightarrow> 20 | Some a \<Rightarrow> a) 0 (tickPerYear w) [0..<nat count] w = Inr w3"
    by (simp add: addRandomPeople_def)
  from h have U: "unit_draws (draws w)" and P: "unforced_people env (tickPerYear w)"
    and R: "room_for_people env w" and pos: "0 < nextSeedId w" by simp_all
  note pr = add_people_props[OF U P _ a refl refl R, simplified]
  show "nextRef w3 = nextRef w + nat count" using pr by simp
  show "sum_list (distributedTicks w3) = sum_list (distributedTicks w) + int (nat count)"
    using pr by simp
  show each: "\<forall>k<nat count. in_bounds w (objects w3 (nextRef w + k)) \<and>
                      seed_id (objects w3 (nextRef w + k)) = nextSeedId w + int k \<and>
                      0 < seed_id (objects w3 (nextRef w + k))"
    using pr pos by auto
  have eq: "map (\<lambda>k. seed_id (objects w3 (nextRef w + k))) [0..<nat count] =
        map (\<lambda>k. nextSeedId w + int k) [0..<nat count]"
    by (rule map_cong) (use each in auto)
  have d: "distinct (map (\<lambda>k. nextSeedId w + int k) [0..<nat count])"
    by (simp add: distinct_map inj_on_def)
  show "distinct (map (\<lambda>k. seed_id (objects w3 (nextRef w + k))) [0..<nat count])"
    unfolding eq by (rule d)
qed

text \<open>Ten people admitted into a constructed world with varying draws.\<close>

theorem admission_places_and_identifies_witness:
  "\<exists>w'. addRandomPeople demo_env 10 None None None demo_arena = Inr w' \<and>
      nextRef w' = 10 \<and>
      sum_list (distributedTicks w') = sum_list (distributedTicks demo_arena) + 10 \<and>
      in_bounds demo_arena (objects w' 0) \<and> in_bounds demo_arena (objects w' 9) \<and>
      seed_id (objects w' 0) = 1 \<and> seed_id (objects w' 9) = 10 \<and>
      distinct (map (\<lambda>k. seed_id (objects w' k)) [0..<10])"
proof -
  obtain w' where a: "addRandomPeople demo_env 10 None None None demo_arena = Inr w'"
    using demo_arena_eval(1)
    by (cases "addRandomPeople demo_env 10 None None None demo_arena") simp_all
  note inst = admission_places_and_identifies[where env = demo_env and w = demo_arena
      and count = 10 and minAge = None and maxAge = None and ?w3.0 = w']
  from conjunct2[OF conjunct2[OF conjunct2[OF conjunct2[OF inst]]]] a demo_arena_ok
  have r: "nextRef w' = nextRef demo_arena + nat 10"
    "sum_list (distributedTicks w') = sum_list (distributedTicks demo_arena) + int (nat 10)"
    "\<forall>k<nat 10. in_bounds demo_arena (objects w' (nextRef demo_arena + k)) \<and>
        seed_id (objects w' (nextRef demo_arena + k)) = nextSeedId demo_arena + int k \<and>
        0 < seed_id (objects w' (nextRef demo_arena + k))"
    "distinct (map (\<lambda>k. seed_id (objects w' (nextRef demo_arena + k))) [0..<nat 10])"
    by (simp_all add: demo_arena_eval safe_integer_def)
  from r(3) have "in_bounds demo_arena (objects w' 0)" "in_bounds demo_arena (objects w' 9)"
    "seed_id (objects w' 0) = 1" "seed_id (objects w' 9) = 10"
    by (simp_all add: demo_arena_eval)
  with a r(1,2,4) show ?thesis by (simp add: demo_arena_eval)
qed

end
